theory Spec2Isabelle
  imports Complex_Main
begin

section \<open>The tetris packer of \<^verbatim>\<open>src/Penrose/spacers.py\<close>\<close>

text \<open>
  \<^verbatim>\<open>tetris_pack(geoms, width, stepx, stepy, nb_orientations)\<close> drops the pieces
  one by one on a sheet of the given width. The code computes on Python floats and
  calls the geometry library shapely. Here numbers are exact rationals (rounding is
  not modelled) and the library is a parameter: a record of the seven operations the
  function calls, over an arbitrary type \<open>'g\<close> of geometries. A concrete instance of
  the record (lists of axis-aligned boxes) is given further down, for evaluation.
\<close>

subsection \<open>Outcomes: a value, a Python exception, or a loop that never ends\<close>

datatype error = ZeroDivisionError | IndexError | ValueError

datatype 'a outcome = Diverges | Raises error | Returns 'a

definition and_then :: "'a outcome \<Rightarrow> ('a \<Rightarrow> 'b outcome) \<Rightarrow> 'b outcome" where
  "and_then m f = (case m of Diverges \<Rightarrow> Diverges | Raises e \<Rightarrow> Raises e | Returns v \<Rightarrow> f v)"

subsection \<open>Python primitives\<close>

text \<open>\<^verbatim>\<open>int(q)\<close> on a float truncates towards zero.\<close>

definition py_int :: "rat \<Rightarrow> int" where
  "py_int q = (if 0 \<le> q then \<lfloor>q\<rfloor> else \<lceil>q\<rceil>)"

text \<open>\<^verbatim>\<open>range(a, b)\<close>: the integers from \<open>a\<close> up to \<open>b - 1\<close>, none if \<open>b \<le> a\<close>.\<close>

definition py_range :: "int \<Rightarrow> int \<Rightarrow> int list" where
  "py_range a b = [a..b - 1]"

text \<open>
  List subscripts: an index \<open>i\<close> with \<open>0 \<le> i < len\<close> is taken as it is, one with
  \<open>-len \<le> i < 0\<close> counts from the end, any other raises \<^verbatim>\<open>IndexError\<close>.
\<close>

definition py_slot :: "'a list \<Rightarrow> int \<Rightarrow> nat option" where
  "py_slot xs i =
     (if 0 \<le> i \<and> i < int (length xs) then Some (nat i)
      else if - int (length xs) \<le> i \<and> i < 0 then Some (nat (int (length xs) + i))
      else None)"

definition getitem :: "'a list \<Rightarrow> int \<Rightarrow> 'a outcome" where
  "getitem xs i = (case py_slot xs i of None \<Rightarrow> Raises IndexError | Some k \<Rightarrow> Returns (xs ! k))"

definition setitem :: "'a list \<Rightarrow> int \<Rightarrow> 'a \<Rightarrow> 'a list outcome" where
  "setitem xs i v = (case py_slot xs i of None \<Rightarrow> Raises IndexError | Some k \<Rightarrow> Returns (xs[k := v]))"

subsection \<open>The geometry library, as a parameter\<close>

text \<open>
  The operations of shapely that \<^verbatim>\<open>tetris_pack\<close> calls:
  \<^verbatim>\<open>shapely.affinity.rotate(g, angle, origin=(0,0))\<close>,
  \<^verbatim>\<open>shapely.affinity.translate(g, xoff, yoff)\<close>, \<^verbatim>\<open>g.bounds\<close> (which is
  \<open>(minx, miny, maxx, maxy)\<close>), \<^verbatim>\<open>a.intersects(g)\<close>, \<^verbatim>\<open>a.union(g)\<close>,
  \<^verbatim>\<open>shapely.geometry.MultiPolygon()\<close> (the empty geometry) and
  \<^verbatim>\<open>shapely.geometry.Polygon(points)\<close>. \<^verbatim>\<open>shapely.prepared.prep(g)\<close> answers
  the same queries as \<open>g\<close>, faster; it is modelled as \<open>g\<close> itself.
\<close>

record 'g shapely =
  sh_rotate :: "'g \<Rightarrow> rat \<Rightarrow> 'g"
  sh_translate :: "'g \<Rightarrow> rat \<Rightarrow> rat \<Rightarrow> 'g"
  sh_bounds :: "'g \<Rightarrow> rat \<times> rat \<times> rat \<times> rat"
  sh_intersects :: "'g \<Rightarrow> 'g \<Rightarrow> bool"
  sh_union :: "'g \<Rightarrow> 'g \<Rightarrow> 'g"
  sh_MultiPolygon :: "'g"
  sh_Polygon :: "(rat \<times> rat) list \<Rightarrow> 'g"

subsection \<open>Candidates and the state of the packing loop\<close>

text \<open>
  One entry of \<^verbatim>\<open>possible_positions\<close>: the dictionary with the keys
  \<^verbatim>\<open>'x'\<close>, \<^verbatim>\<open>'yoff'\<close>, \<^verbatim>\<open>'maxy'\<close> and \<^verbatim>\<open>'geom'\<close>.
\<close>

record 'g position =
  pos_x :: int
  pos_yoff :: rat
  pos_maxy :: rat
  pos_geom :: "'g"

text \<open>
  The local variables of \<^verbatim>\<open>tetris_pack\<close> that live across pieces. The field
  \<open>placed\<close> is not in the source: it keeps every \<^verbatim>\<open>best_position\<close> in the order
  of the commits, so that properties of the committed placements can be stated.
\<close>

record 'g pack_state =
  result :: "'g"
  simplified_result :: "'g"
  simplified_result_prepared :: "'g"
  starting_yoffs :: "rat list"
  nb_placed :: nat
  global_maxy :: rat
  placed :: "'g position list"

subsection \<open>The vertical search (lines 119 to 122)\<close>

text \<open>
  \<^verbatim>\<open>
  while simplified_result_prepared.intersects(geom_yshifted):
      yoff += stepy
      geom_yshifted = shapely.affinity.translate(geom_xshifted, xoff=0, yoff=yoff)
  \<close>
  The loop has no bound, so it is a partial function: \<open>None\<close> is a loop that never
  ends, \<open>Some (yoff, geom_yshifted)\<close> the two variables when it ends.
\<close>

partial_function (option) probe ::
  "'g shapely \<Rightarrow> 'g \<Rightarrow> 'g \<Rightarrow> rat \<Rightarrow> rat \<Rightarrow> 'g \<Rightarrow> (rat \<times> 'g) option" where
  "probe G prepared geom_xshifted stepy yoff geom_yshifted =
     (if sh_intersects G prepared geom_yshifted
      then probe G prepared geom_xshifted stepy (yoff + stepy)
             (sh_translate G geom_xshifted 0 (yoff + stepy))
      else Some (yoff, geom_yshifted))"

declare probe.simps [code]

subsection \<open>One (orientation, column) candidate (lines 116 to 123)\<close>

definition candidate ::
  "'g shapely \<Rightarrow> 'g pack_state \<Rightarrow> rat \<Rightarrow> rat \<Rightarrow> 'g \<Rightarrow> int \<Rightarrow> 'g position outcome" where
  "candidate G st stepx stepy geom_rotated x =
     (case sh_bounds G geom_rotated of (minx, miny, maxx, maxy) \<Rightarrow>
        let geom_xshifted = sh_translate G geom_rotated (of_int x * stepx) (- miny) in
        and_then (getitem (starting_yoffs st) x) (\<lambda>yoff.
          case probe G (simplified_result_prepared st) geom_xshifted stepy yoff geom_xshifted of
            None \<Rightarrow> Diverges
          | Some (yoff', geom_yshifted) \<Rightarrow>
              Returns \<lparr>pos_x = x, pos_yoff = yoff', pos_maxy = yoff' + maxy - miny,
                       pos_geom = geom_yshifted\<rparr>))"

subsection \<open>The columns of one orientation (line 115) and the two loops over candidates\<close>

definition columns :: "'g shapely \<Rightarrow> rat \<Rightarrow> rat \<Rightarrow> 'g \<Rightarrow> int list" where
  "columns G width stepx geom_rotated =
     (case sh_bounds G geom_rotated of (minx, miny, maxx, maxy) \<Rightarrow>
        py_range \<lceil>- minx / stepx\<rceil> \<lfloor>(width - maxx) / stepx\<rfloor>)"

fun try_columns ::
  "'g shapely \<Rightarrow> 'g pack_state \<Rightarrow> rat \<Rightarrow> rat \<Rightarrow> 'g \<Rightarrow> int list \<Rightarrow> 'g position list
     \<Rightarrow> 'g position list outcome" where
  "try_columns G st stepx stepy geom_rotated [] possible_positions = Returns possible_positions"
| "try_columns G st stepx stepy geom_rotated (x # xs) possible_positions =
     and_then (candidate G st stepx stepy geom_rotated x) (\<lambda>p.
       try_columns G st stepx stepy geom_rotated xs (possible_positions @ [p]))"

text \<open>
  The angle of orientation \<open>i\<close> is \<^verbatim>\<open>360/nb_orientations*i\<close>. The script is run
  with Python 2, where \<^verbatim>\<open>/\<close> on two integers is the floor division.
\<close>

definition orientation_angle :: "int \<Rightarrow> int \<Rightarrow> rat" where
  "orientation_angle nb_orientations i = of_int (360 div nb_orientations * i)"

fun try_orientations ::
  "'g shapely \<Rightarrow> 'g pack_state \<Rightarrow> rat \<Rightarrow> rat \<Rightarrow> rat \<Rightarrow> int \<Rightarrow> 'g \<Rightarrow> int list
     \<Rightarrow> 'g position list \<Rightarrow> 'g position list outcome" where
  "try_orientations G st width stepx stepy nb_orientations geom [] possible_positions =
     Returns possible_positions"
| "try_orientations G st width stepx stepy nb_orientations geom (i # is) possible_positions =
     (let geom_rotated = sh_rotate G geom (orientation_angle nb_orientations i) in
      and_then (try_columns G st stepx stepy geom_rotated
                  (columns G width stepx geom_rotated) possible_positions) (\<lambda>ps.
        try_orientations G st width stepx stepy nb_orientations geom is ps))"

subsection \<open>The choice of the best candidate (line 124)\<close>

text \<open>
  \<^verbatim>\<open>min(possible_positions, key = lambda d: (d['maxy'], d['x']))\<close>: tuples are
  compared lexicographically, the minimum is the first element whose key no other
  element's key is less than, and an empty list raises \<^verbatim>\<open>ValueError\<close>.
\<close>

definition position_key :: "'g position \<Rightarrow> rat \<times> int" where
  "position_key d = (pos_maxy d, pos_x d)"

definition key_less :: "rat \<times> int \<Rightarrow> rat \<times> int \<Rightarrow> bool" where
  "key_less a b = (fst a < fst b \<or> (fst a = fst b \<and> snd a < snd b))"

fun min_from :: "'g position \<Rightarrow> 'g position list \<Rightarrow> 'g position" where
  "min_from best [] = best"
| "min_from best (d # ds) =
     min_from (if key_less (position_key d) (position_key best) then d else best) ds"

fun py_min :: "'g position list \<Rightarrow> 'g position outcome" where
  "py_min [] = Raises ValueError"
| "py_min (d # ds) = Returns (min_from d ds)"

subsection \<open>The commit (lines 125 to 138)\<close>

text \<open>
  \<^verbatim>\<open>
  for x in range(int(math.ceil(minx/stepx)), int(math.floor(maxx/stepx))):
      starting_yoffs[x] = max(starting_yoffs[x], miny)
  \<close>
\<close>

fun raise_levels :: "rat list \<Rightarrow> int list \<Rightarrow> rat \<Rightarrow> rat list outcome" where
  "raise_levels yoffs [] miny = Returns yoffs"
| "raise_levels yoffs (x # xs) miny =
     and_then (getitem yoffs x) (\<lambda>old.
     and_then (setitem yoffs x (max old miny)) (\<lambda>yoffs'.
       raise_levels yoffs' xs miny))"

text \<open>The rectangle under the placed piece that is added to \<^verbatim>\<open>simplified_result\<close>.\<close>

definition shadow :: "'g shapely \<Rightarrow> rat \<times> rat \<times> rat \<times> rat \<Rightarrow> 'g" where
  "shadow G b =
     (case b of (minx, miny, maxx, maxy) \<Rightarrow>
        sh_Polygon G [(minx, - (1 / 1000000)), (minx, miny - 1 / 1000000),
                      (maxx, miny - 1 / 1000000), (maxx, - (1 / 1000000))])"

definition commit ::
  "'g shapely \<Rightarrow> rat \<Rightarrow> 'g pack_state \<Rightarrow> 'g position \<Rightarrow> 'g pack_state outcome" where
  "commit G stepx st best_position =
     and_then (setitem (starting_yoffs st) (pos_x best_position) (pos_yoff best_position))
       (\<lambda>yoffs1.
     case sh_bounds G (pos_geom best_position) of (minx, miny, maxx, maxy) \<Rightarrow>
     let result' = sh_union G (result st) (pos_geom best_position);
         simplified1 = sh_union G (simplified_result st) (pos_geom best_position);
         simplified2 = sh_union G simplified1 (shadow G (minx, miny, maxx, maxy))
     in
     and_then (raise_levels yoffs1 (py_range \<lceil>minx / stepx\<rceil> \<lfloor>maxx / stepx\<rfloor>) miny)
       (\<lambda>yoffs2.
     Returns \<lparr>result = result',
              simplified_result = simplified2,
              simplified_result_prepared = simplified2,
              starting_yoffs = yoffs2,
              nb_placed = nb_placed st + 1,
              global_maxy = max maxy (global_maxy st),
              placed = placed st @ [best_position]\<rparr>))"

subsection \<open>One piece (the body of the loop of line 110) and the whole run\<close>

definition candidates ::
  "'g shapely \<Rightarrow> rat \<Rightarrow> rat \<Rightarrow> rat \<Rightarrow> int \<Rightarrow> 'g pack_state \<Rightarrow> 'g \<Rightarrow> 'g position list outcome" where
  "candidates G width stepx stepy nb_orientations st geom =
     try_orientations G st width stepx stepy nb_orientations geom
       (py_range 0 nb_orientations) []"

definition place_piece ::
  "'g shapely \<Rightarrow> rat \<Rightarrow> rat \<Rightarrow> rat \<Rightarrow> int \<Rightarrow> 'g pack_state \<Rightarrow> 'g \<Rightarrow> 'g pack_state outcome" where
  "place_piece G width stepx stepy nb_orientations st geom =
     and_then (candidates G width stepx stepy nb_orientations st geom) (\<lambda>possible_positions.
     and_then (py_min possible_positions) (\<lambda>best_position.
       commit G stepx st best_position))"

fun place_all ::
  "'g shapely \<Rightarrow> rat \<Rightarrow> rat \<Rightarrow> rat \<Rightarrow> int \<Rightarrow> 'g pack_state \<Rightarrow> 'g list \<Rightarrow> 'g pack_state outcome" where
  "place_all G width stepx stepy nb_orientations st [] = Returns st"
| "place_all G width stepx stepy nb_orientations st (geom # geoms) =
     and_then (place_piece G width stepx stepy nb_orientations st geom) (\<lambda>st'.
       place_all G width stepx stepy nb_orientations st' geoms)"

text \<open>Lines 103 to 109. \<^verbatim>\<open>[0] * n\<close> is the empty list when \<open>n \<le> 0\<close>.\<close>

definition initial_state :: "'g shapely \<Rightarrow> int \<Rightarrow> 'g pack_state" where
  "initial_state G nb_stepx =
     \<lparr>result = sh_MultiPolygon G,
      simplified_result = sh_MultiPolygon G,
      simplified_result_prepared = sh_MultiPolygon G,
      starting_yoffs = replicate (nat nb_stepx) 0,
      nb_placed = 0,
      global_maxy = 0,
      placed = []\<rparr>"

text \<open>
  The whole function, with its final state; \<^verbatim>\<open>width/stepx\<close> raises
  \<^verbatim>\<open>ZeroDivisionError\<close> for \<open>stepx = 0\<close>.
\<close>

definition tetris_run ::
  "'g shapely \<Rightarrow> 'g list \<Rightarrow> rat \<Rightarrow> rat \<Rightarrow> rat \<Rightarrow> int \<Rightarrow> 'g pack_state outcome" where
  "tetris_run G geoms width stepx stepy nb_orientations =
     (if stepx = 0 then Raises ZeroDivisionError
      else place_all G width stepx stepy nb_orientations
             (initial_state G (py_int (width / stepx))) geoms)"

definition tetris_pack ::
  "'g shapely \<Rightarrow> 'g list \<Rightarrow> rat \<Rightarrow> rat \<Rightarrow> rat \<Rightarrow> int \<Rightarrow> 'g outcome" where
  "tetris_pack G geoms width stepx stepy nb_orientations =
     and_then (tetris_run G geoms width stepx stepy nb_orientations) (\<lambda>st. Returns (result st))"

section \<open>A concrete geometry: finite unions of axis-aligned boxes\<close>

text \<open>
  An instance of the library record on which the packer can be run by rewriting. A
  geometry is a list of closed boxes \<open>(minx, miny, maxx, maxy)\<close> and stands for their
  union. Translation, bounds, union and the rectangle built by \<^verbatim>\<open>Polygon\<close> from
  four corners are exact on such geometries. Two geometries intersect when they share
  a point, boundary included, which is what shapely's \<^verbatim>\<open>intersects\<close> answers.
  Rotation is exact for the multiples of a quarter turn (other angles are rounded down
  to one); the bounds of the empty geometry are taken as zero.
\<close>

type_synonym box = "rat \<times> rat \<times> rat \<times> rat"

definition box_translate :: "rat \<Rightarrow> rat \<Rightarrow> box \<Rightarrow> box" where
  "box_translate xoff yoff b =
     (case b of (minx, miny, maxx, maxy) \<Rightarrow> (minx + xoff, miny + yoff, maxx + xoff, maxy + yoff))"

definition box_quarter_turn :: "box \<Rightarrow> box" where
  "box_quarter_turn b = (case b of (minx, miny, maxx, maxy) \<Rightarrow> (- maxy, minx, - miny, maxx))"

definition box_meets :: "box \<Rightarrow> box \<Rightarrow> bool" where
  "box_meets a b =
     (case a of (aminx, aminy, amaxx, amaxy) \<Rightarrow>
      case b of (bminx, bminy, bmaxx, bmaxy) \<Rightarrow>
        max aminx bminx \<le> min amaxx bmaxx \<and> max aminy bminy \<le> min amaxy bmaxy)"

fun box_hull :: "box \<Rightarrow> box list \<Rightarrow> box" where
  "box_hull h [] = h"
| "box_hull h (b # bs) =
     (case h of (hminx, hminy, hmaxx, hmaxy) \<Rightarrow>
      case b of (minx, miny, maxx, maxy) \<Rightarrow>
        box_hull (min hminx minx, min hminy miny, max hmaxx maxx, max hmaxy maxy) bs)"

definition boxes_bounds :: "box list \<Rightarrow> box" where
  "boxes_bounds g = (case g of [] \<Rightarrow> (0, 0, 0, 0) | b # bs \<Rightarrow> box_hull b bs)"

definition boxes_rotate :: "box list \<Rightarrow> rat \<Rightarrow> box list" where
  "boxes_rotate g angle = ((map box_quarter_turn) ^^ (nat (\<lfloor>angle / 90\<rfloor> mod 4))) g"

definition boxes_intersects :: "box list \<Rightarrow> box list \<Rightarrow> bool" where
  "boxes_intersects a g = list_ex (\<lambda>r. list_ex (box_meets r) g) a"

definition boxes_Polygon :: "(rat \<times> rat) list \<Rightarrow> box list" where
  "boxes_Polygon pts =
     (case pts of [] \<Rightarrow> []
      | (px, py) # ps \<Rightarrow> [box_hull (px, py, px, py) (map (\<lambda>(qx, qy). (qx, qy, qx, qy)) ps)])"

definition Boxes :: "box list shapely" where
  "Boxes =
     \<lparr>sh_rotate = boxes_rotate,
      sh_translate = (\<lambda>g xoff yoff. map (box_translate xoff yoff) g),
      sh_bounds = boxes_bounds,
      sh_intersects = boxes_intersects,
      sh_union = (\<lambda>a g. a @ g),
      sh_MultiPolygon = [],
      sh_Polygon = boxes_Polygon\<rparr>"

text \<open>The square of the scenarios: corners \<open>(-1,-1)\<close>, \<open>(1,-1)\<close>, \<open>(1,1)\<close>, \<open>(-1,1)\<close>.\<close>

definition square :: "box list" where
  "square = [(-1, -1, 1, 1)]"

section \<open>Notions used in the statements\<close>

text \<open>
  The geometry that the vertical search tests in its round \<open>k\<close>: the geometry it
  starts with in round \<open>0\<close>, then \<^verbatim>\<open>geom_xshifted\<close> lifted by \<open>yoff + k * stepy\<close>.
\<close>

definition probed :: "'g shapely \<Rightarrow> 'g \<Rightarrow> rat \<Rightarrow> rat \<Rightarrow> 'g \<Rightarrow> nat \<Rightarrow> 'g" where
  "probed G geom_xshifted stepy yoff geom_yshifted k =
     (if k = 0 then geom_yshifted
      else sh_translate G geom_xshifted 0 (yoff + of_nat k * stepy))"

text \<open>What a run leaves behind: the committed placements, and the water levels.\<close>

definition placements :: "'g pack_state outcome \<Rightarrow> 'g position list outcome" where
  "placements r = and_then r (\<lambda>st. Returns (placed st))"

definition water_levels :: "'g pack_state outcome \<Rightarrow> rat list outcome" where
  "water_levels r = and_then r (\<lambda>st. Returns (starting_yoffs st))"

definition committed_columns :: "'g pack_state outcome \<Rightarrow> int list outcome" where
  "committed_columns r = and_then r (\<lambda>st. Returns (map pos_x (placed st)))"

text \<open>A piece that fits a sheet of width 1 with columns of width \<open>1/4\<close>.\<close>

definition small_square :: "box list" where
  "small_square = [(- (1 / 4), - (1 / 4), 1 / 4, 1 / 4)]"

text \<open>
  Two more pieces that contain their pivot: a flat bar, and a hook whose arm holds the
  pivot and whose stem hangs down at the right end of the arm.
\<close>

definition bar :: "box list" where
  "bar = [(-3, -1, 3, 1)]"

definition hook :: "box list" where
  "hook = [(-1, - (1 / 2), 4, 1 / 2), (13 / 4, -8, 15 / 4, 1 / 2)]"

text \<open>
  Two facts about the library that the no-overlap property rests on: a union
  intersects whatever one of its two parts intersects, and \<^verbatim>\<open>intersects\<close> is
  symmetric.
\<close>

definition union_covers :: "'g shapely \<Rightarrow> bool" where
  "union_covers G =
     (\<forall>a b c. (sh_intersects G a c \<or> sh_intersects G b c) \<longrightarrow> sh_intersects G (sh_union G a b) c)"

definition intersects_symmetric :: "'g shapely \<Rightarrow> bool" where
  "intersects_symmetric G = (\<forall>a b. sh_intersects G a b = sh_intersects G b a)"

text \<open>
  The state between two pieces: the prepared geometry is the simplified result, which
  intersects whatever a committed geometry intersects, and no committed geometry
  intersects an earlier one.
\<close>

definition apart :: "'g shapely \<Rightarrow> 'g position list \<Rightarrow> bool" where
  "apart G ps =
     (\<forall>j<length ps. \<forall>i<j. \<not> sh_intersects G (pos_geom (ps ! i)) (pos_geom (ps ! j)))"

definition covered :: "'g shapely \<Rightarrow> 'g pack_state \<Rightarrow> bool" where
  "covered G st =
     (simplified_result_prepared st = simplified_result st
      \<and> (\<forall>p\<in>set (placed st). \<forall>c. sh_intersects G (pos_geom p) c
             \<longrightarrow> sh_intersects G (simplified_result st) c)
      \<and> apart G (placed st))"

text \<open>The area that two geometries of boxes have in common, summed over the pairs of boxes.\<close>

definition box_common_area :: "box \<Rightarrow> box \<Rightarrow> rat" where
  "box_common_area a b =
     (case a of (aminx, aminy, amaxx, amaxy) \<Rightarrow>
      case b of (bminx, bminy, bmaxx, bmaxy) \<Rightarrow>
        max 0 (min amaxx bmaxx - max aminx bminx) * max 0 (min amaxy bmaxy - max aminy bminy))"

definition boxes_common_area :: "box list \<Rightarrow> box list \<Rightarrow> rat" where
  "boxes_common_area a g = sum_list (map (\<lambda>r. sum_list (map (box_common_area r) g)) a)"

section \<open>Basic facts\<close>

subsection \<open>Sequencing\<close>

lemma and_then_Returns [simp]: "and_then (Returns v) f = f v"
  by (simp add: and_then_def)

lemma and_then_Raises [simp]: "and_then (Raises e) f = Raises e"
  by (simp add: and_then_def)

lemma and_then_Diverges [simp]: "and_then Diverges f = Diverges"
  by (simp add: and_then_def)

lemma and_then_eq_Returns:
  "and_then m f = Returns r \<longleftrightarrow> (\<exists>v. m = Returns v \<and> f v = Returns r)"
  by (cases m) simp_all

subsection \<open>The vertical search\<close>

lemma probed_0 [simp]: "probed G gx stepy yoff g 0 = g"
  by (simp add: probed_def)

lemma probed_Suc:
  "probed G gx stepy yoff g (Suc k) =
     probed G gx stepy (yoff + stepy) (sh_translate G gx 0 (yoff + stepy)) k"
  by (simp add: probed_def algebra_simps)

lemma probe_first_free:
  "\<not> sh_intersects G sr (probed G gx stepy yoff g k) \<Longrightarrow>
   (\<And>j. j < k \<Longrightarrow> sh_intersects G sr (probed G gx stepy yoff g j)) \<Longrightarrow>
   probe G sr gx stepy yoff g = Some (yoff + of_nat k * stepy, probed G gx stepy yoff g k)"
proof (induction k arbitrary: yoff g)
  case 0
  then show ?case by (simp add: probe.simps [of G sr gx stepy yoff g])
next
  case (Suc k)
  let ?y = "yoff + stepy"
  let ?g = "sh_translate G gx 0 ?y"
  from Suc.prems(2) [of 0] have hit: "sh_intersects G sr g" by simp
  have free: "\<not> sh_intersects G sr (probed G gx stepy ?y ?g k)"
    using Suc.prems(1) by (simp add: probed_Suc)
  have below: "sh_intersects G sr (probed G gx stepy ?y ?g j)" if "j < k" for j
    using Suc.prems(2) [of "Suc j"] that by (simp add: probed_Suc)
  have "probe G sr gx stepy ?y ?g = Some (?y + of_nat k * stepy, probed G gx stepy ?y ?g k)"
    using free below by (rule Suc.IH)
  with hit show ?case
    by (simp add: probe.simps [of G sr gx stepy yoff g] probed_Suc algebra_simps)
qed

lemma probe_returned:
  assumes ret: "probe G sr gx stepy yoff g = Some r"
  shows "\<exists>k. r = (yoff + of_nat k * stepy, probed G gx stepy yoff g k)
           \<and> \<not> sh_intersects G sr (probed G gx stepy yoff g k)
           \<and> (\<forall>j<k. sh_intersects G sr (probed G gx stepy yoff g j))"
proof (rule probe.raw_induct [where P = "\<lambda>G sr gx stepy yoff g r.
         \<exists>k. r = (yoff + of_nat k * stepy, probed G gx stepy yoff g k)
           \<and> \<not> sh_intersects G sr (probed G gx stepy yoff g k)
           \<and> (\<forall>j<k. sh_intersects G sr (probed G gx stepy yoff g j))", OF _ ret])
  fix f :: "'g shapely \<Rightarrow> 'g \<Rightarrow> 'g \<Rightarrow> rat \<Rightarrow> rat \<Rightarrow> 'g \<Rightarrow> (rat \<times> 'g) option"
  fix G sr gx stepy yoff g r
  assume IH: "\<And>G sr gx stepy yoff g r. f G sr gx stepy yoff g = Some r \<Longrightarrow>
         \<exists>k. r = (yoff + of_nat k * stepy, probed G gx stepy yoff g k)
           \<and> \<not> sh_intersects G sr (probed G gx stepy yoff g k)
           \<and> (\<forall>j<k. sh_intersects G sr (probed G gx stepy yoff g j))"
    and eq: "(if sh_intersects G sr g
              then f G sr gx stepy (yoff + stepy) (sh_translate G gx 0 (yoff + stepy))
              else Some (yoff, g)) = Some r"
  show "\<exists>k. r = (yoff + of_nat k * stepy, probed G gx stepy yoff g k)
           \<and> \<not> sh_intersects G sr (probed G gx stepy yoff g k)
           \<and> (\<forall>j<k. sh_intersects G sr (probed G gx stepy yoff g j))"
  proof (cases "sh_intersects G sr g")
    case False
    with eq have "r = (yoff, g)" by simp
    with False show ?thesis by (intro exI [of _ 0]) simp
  next
    case True
    let ?y = "yoff + stepy"
    let ?g = "sh_translate G gx 0 ?y"
    from True eq have "f G sr gx stepy ?y ?g = Some r" by simp
    from IH [OF this] obtain k where
      r: "r = (?y + of_nat k * stepy, probed G gx stepy ?y ?g k)"
      and free: "\<not> sh_intersects G sr (probed G gx stepy ?y ?g k)"
      and below: "\<forall>j<k. sh_intersects G sr (probed G gx stepy ?y ?g j)"
      by blast
    have "\<forall>j<Suc k. sh_intersects G sr (probed G gx stepy yoff g j)"
    proof (intro allI impI)
      fix j assume "j < Suc k"
      show "sh_intersects G sr (probed G gx stepy yoff g j)"
      proof (cases j)
        case 0
        with True show ?thesis by simp
      next
        case (Suc i)
        with \<open>j < Suc k\<close> below show ?thesis by (simp add: probed_Suc)
      qed
    qed
    with r free show ?thesis
      by (intro exI [of _ "Suc k"]) (simp add: probed_Suc algebra_simps)
  qed
qed

lemma probe_None_iff:
  "probe G sr gx stepy yoff g = None \<longleftrightarrow> (\<forall>k. sh_intersects G sr (probed G gx stepy yoff g k))"
proof
  assume none: "probe G sr gx stepy yoff g = None"
  show "\<forall>k. sh_intersects G sr (probed G gx stepy yoff g k)"
  proof (rule ccontr)
    assume "\<not> (\<forall>k. sh_intersects G sr (probed G gx stepy yoff g k))"
    then obtain k where k: "\<not> sh_intersects G sr (probed G gx stepy yoff g k)" by blast
    define m where "m = (LEAST k. \<not> sh_intersects G sr (probed G gx stepy yoff g k))"
    have free: "\<not> sh_intersects G sr (probed G gx stepy yoff g m)"
      unfolding m_def using k by (rule LeastI)
    have below: "sh_intersects G sr (probed G gx stepy yoff g j)" if "j < m" for j
      using not_less_Least [of j "\<lambda>k. \<not> sh_intersects G sr (probed G gx stepy yoff g k)"] that
      unfolding m_def by blast
    from probe_first_free [OF free below] none show False by simp
  qed
next
  assume all: "\<forall>k. sh_intersects G sr (probed G gx stepy yoff g k)"
  show "probe G sr gx stepy yoff g = None"
  proof (cases "probe G sr gx stepy yoff g")
    case None
    then show ?thesis .
  next
    case (Some r)
    from probe_returned [OF this] all show ?thesis by blast
  qed
qed

subsection \<open>Subscripts\<close>

lemma py_slot_less: "py_slot xs i = Some k \<Longrightarrow> k < length xs"
  by (auto simp: py_slot_def split: if_splits)

lemma py_slot_same_length: "length xs = length ys \<Longrightarrow> py_slot xs i = py_slot ys i"
  by (simp add: py_slot_def)

lemma getitem_Returns:
  "getitem xs i = Returns v \<longleftrightarrow> (\<exists>k. py_slot xs i = Some k \<and> v = xs ! k)"
  by (auto simp: getitem_def split: option.splits)

lemma setitem_Returns:
  "setitem xs i v = Returns ys \<longleftrightarrow> (\<exists>k. py_slot xs i = Some k \<and> ys = xs[k := v])"
  by (auto simp: setitem_def split: option.splits)

subsection \<open>Raising the water levels\<close>

lemma raise_levels_Returns:
  "raise_levels ys xs m = Returns zs \<Longrightarrow>
   length zs = length ys \<and>
   (\<forall>c<length ys. zs ! c = (if \<exists>x\<in>set xs. py_slot ys x = Some c then max (ys ! c) m else ys ! c))"
proof (induction xs arbitrary: ys)
  case Nil
  then show ?case by simp
next
  case (Cons x xs)
  from Cons.prems obtain k where k: "py_slot ys x = Some k"
    and rest: "raise_levels (ys[k := max (ys ! k) m]) xs m = Returns zs"
    by (auto simp: and_then_eq_Returns getitem_Returns setitem_Returns)
  let ?ys = "ys[k := max (ys ! k) m]"
  have len: "length ?ys = length ys" by simp
  have slot: "py_slot ?ys i = py_slot ys i" for i
    by (rule py_slot_same_length) simp
  from Cons.IH [OF rest] have zlen: "length zs = length ys"
    and z: "\<forall>c<length ys. zs ! c =
              (if \<exists>x\<in>set xs. py_slot ys x = Some c then max (?ys ! c) m else ?ys ! c)"
    by (simp_all add: slot)
  have kl: "k < length ys" using k by (rule py_slot_less)
  show ?case
  proof (intro conjI allI impI)
    show "length zs = length ys" by (rule zlen)
  next
    fix c assume c: "c < length ys"
    show "zs ! c = (if \<exists>x\<in>set (x # xs). py_slot ys x = Some c then max (ys ! c) m else ys ! c)"
    proof (cases "c = k")
      case True
      with z c kl k show ?thesis by simp
    next
      case False
      with z c kl k show ?thesis by auto
    qed
  qed
qed

subsection \<open>Candidates\<close>

lemma candidate_Returns:
  assumes "candidate G st stepx stepy geom_rotated x = Returns p"
    and "sh_bounds G geom_rotated = (minx, miny, maxx, maxy)"
  shows "\<exists>w k. getitem (starting_yoffs st) x = Returns w
           \<and> p = \<lparr>pos_x = x, pos_yoff = w + of_nat k * stepy,
                   pos_maxy = w + of_nat k * stepy + maxy - miny,
                   pos_geom = probed G (sh_translate G geom_rotated (of_int x * stepx) (- miny))
                                stepy w (sh_translate G geom_rotated (of_int x * stepx) (- miny)) k\<rparr>
           \<and> \<not> sh_intersects G (simplified_result_prepared st) (pos_geom p)"
proof -
  let ?gx = "sh_translate G geom_rotated (of_int x * stepx) (- miny)"
  from assms obtain w r where w: "getitem (starting_yoffs st) x = Returns w"
    and r: "probe G (simplified_result_prepared st) ?gx stepy w ?gx = Some r"
    and p: "p = \<lparr>pos_x = x, pos_yoff = fst r, pos_maxy = fst r + maxy - miny, pos_geom = snd r\<rparr>"
    by (auto simp: candidate_def Let_def and_then_eq_Returns split: option.splits)
  from probe_returned [OF r] p w show ?thesis by auto
qed

lemma try_columns_all:
  assumes each: "\<And>x p. candidate G st stepx stepy geom_rotated x = Returns p \<Longrightarrow> P p"
  shows "try_columns G st stepx stepy geom_rotated xs acc = Returns ps \<Longrightarrow>
         list_all P acc \<Longrightarrow> list_all P ps"
proof (induction xs arbitrary: acc)
  case Nil
  then show ?case by simp
next
  case (Cons x xs)
  from Cons.prems(1) obtain p where p: "candidate G st stepx stepy geom_rotated x = Returns p"
    and rest: "try_columns G st stepx stepy geom_rotated xs (acc @ [p]) = Returns ps"
    by (auto simp: and_then_eq_Returns)
  from each [OF p] Cons.prems(2) have "list_all P (acc @ [p])" by simp
  with rest show ?case by (rule Cons.IH)
qed

lemma try_orientations_all:
  assumes each: "\<And>geom_rotated x p. candidate G st stepx stepy geom_rotated x = Returns p \<Longrightarrow> P p"
  shows "try_orientations G st width stepx stepy n geom is acc = Returns ps \<Longrightarrow>
         list_all P acc \<Longrightarrow> list_all P ps"
proof (induction "is" arbitrary: acc)
  case Nil
  then show ?case by simp
next
  case (Cons i "is")
  let ?gr = "sh_rotate G geom (orientation_angle n i)"
  from Cons.prems(1) obtain mid where
    mid: "try_columns G st stepx stepy ?gr (columns G width stepx ?gr) acc = Returns mid"
    and rest: "try_orientations G st width stepx stepy n geom is mid = Returns ps"
    by (auto simp: and_then_eq_Returns Let_def)
  have "list_all P mid"
    using each mid Cons.prems(2) by (rule try_columns_all)
  with rest show ?case by (rule Cons.IH)
qed

lemma candidates_all:
  assumes "\<And>geom_rotated x p. candidate G st stepx stepy geom_rotated x = Returns p \<Longrightarrow> P p"
    and "candidates G width stepx stepy n st geom = Returns ps"
  shows "list_all P ps"
proof -
  from assms(2) have "try_orientations G st width stepx stepy n geom (py_range 0 n) [] = Returns ps"
    by (simp add: candidates_def)
  moreover have "list_all P []" by simp
  ultimately show ?thesis
    using assms(1) try_orientations_all [of G st stepx stepy P width n geom "py_range 0 n" "[]" ps]
    by blast
qed

subsection \<open>The minimum\<close>

lemma key_less_irrefl [simp]: "\<not> key_less a a"
  by (simp add: key_less_def)

lemma key_less_trans: "key_less a b \<Longrightarrow> key_less b c \<Longrightarrow> key_less a c"
  by (auto simp: key_less_def)

lemma not_key_less_then: "\<not> key_less a b \<Longrightarrow> key_less a c \<Longrightarrow> key_less b c"
  by (auto simp: key_less_def)

text \<open>
  \<open>min_from best ds\<close> returns \<open>best\<close> if no element of \<open>ds\<close> has a smaller key, and
  otherwise the first element of \<open>ds\<close> whose key is smaller than the key of \<open>best\<close>
  and than the keys before it, and not larger than the ones after it.
\<close>

lemma min_from_first:
  "(min_from best ds = best \<and> (\<forall>d\<in>set ds. \<not> key_less (position_key d) (position_key best)))
   \<or> (\<exists>k<length ds. min_from best ds = ds ! k
         \<and> key_less (position_key (ds ! k)) (position_key best)
         \<and> (\<forall>j<length ds. \<not> key_less (position_key (ds ! j)) (position_key (ds ! k)))
         \<and> (\<forall>j<k. key_less (position_key (ds ! k)) (position_key (ds ! j))))"
proof (induction ds arbitrary: best)
  case Nil
  then show ?case by simp
next
  case (Cons d ds)
  let ?K = position_key
  let ?b = "if key_less (?K d) (?K best) then d else best"
  have step: "min_from best (d # ds) = min_from ?b ds" by simp
  from Cons.IH [of ?b] consider
    (keep) "min_from ?b ds = ?b" "\<forall>e\<in>set ds. \<not> key_less (?K e) (?K ?b)"
    | (later) k where "k < length ds" "min_from ?b ds = ds ! k"
        "key_less (?K (ds ! k)) (?K ?b)"
        "\<forall>j<length ds. \<not> key_less (?K (ds ! j)) (?K (ds ! k))"
        "\<forall>j<k. key_less (?K (ds ! k)) (?K (ds ! j))"
    by blast
  then show ?case
  proof cases
    case keep
    show ?thesis
    proof (cases "key_less (?K d) (?K best)")
      case False
      with keep have "min_from best (d # ds) = best"
        and "\<forall>e\<in>set (d # ds). \<not> key_less (?K e) (?K best)" by simp_all
      then show ?thesis by blast
    next
      case True
      with keep have m: "min_from best (d # ds) = (d # ds) ! 0"
        and rest: "\<forall>e\<in>set ds. \<not> key_less (?K e) (?K d)" by simp_all
      have "\<forall>j<length (d # ds). \<not> key_less (?K ((d # ds) ! j)) (?K ((d # ds) ! 0))"
      proof (intro allI impI)
        fix j assume "j < length (d # ds)"
        then show "\<not> key_less (?K ((d # ds) ! j)) (?K ((d # ds) ! 0))"
          using rest by (cases j) simp_all
      qed
      with m True show ?thesis
        by (intro disjI2 exI [of _ 0]) simp
    qed
  next
    case later
    have lt_b: "key_less (?K (ds ! k)) (?K best)"
    proof (cases "key_less (?K d) (?K best)")
      case True
      with later(3) show ?thesis by (auto intro: key_less_trans)
    next
      case False
      with later(3) show ?thesis by simp
    qed
    have lt_d: "key_less (?K (ds ! k)) (?K d)"
    proof (cases "key_less (?K d) (?K best)")
      case True
      with later(3) show ?thesis by simp
    next
      case False
      from not_key_less_then [OF False, of "?K (ds ! k)"] show ?thesis
        using lt_b False by (auto simp: key_less_def)
    qed
    have all: "\<forall>j<length (d # ds). \<not> key_less (?K ((d # ds) ! j)) (?K ((d # ds) ! Suc k))"
    proof (intro allI impI)
      fix j assume j: "j < length (d # ds)"
      show "\<not> key_less (?K ((d # ds) ! j)) (?K ((d # ds) ! Suc k))"
      proof (cases j)
        case 0
        with lt_d show ?thesis by (auto simp: key_less_def)
      next
        case (Suc i)
        with j later(4) show ?thesis by simp
      qed
    qed
    have before: "\<forall>j<Suc k. key_less (?K ((d # ds) ! Suc k)) (?K ((d # ds) ! j))"
    proof (intro allI impI)
      fix j assume j: "j < Suc k"
      show "key_less (?K ((d # ds) ! Suc k)) (?K ((d # ds) ! j))"
      proof (cases j)
        case 0
        with lt_d show ?thesis by simp
      next
        case (Suc i)
        with j later(5) show ?thesis by simp
      qed
    qed
    from later(1,2) lt_b all before show ?thesis
      by (intro disjI2 exI [of _ "Suc k"]) (simp del: min_from.simps add: step)
  qed
qed

lemma py_min_first:
  assumes "ps \<noteq> []"
  shows "\<exists>k<length ps. py_min ps = Returns (ps ! k)
           \<and> (\<forall>j<length ps. \<not> key_less (position_key (ps ! j)) (position_key (ps ! k)))
           \<and> (\<forall>j<k. key_less (position_key (ps ! k)) (position_key (ps ! j)))"
proof -
  from assms obtain d ds where ps: "ps = d # ds" by (cases ps) auto
  from min_from_first [of d ds] consider
    (keep) "min_from d ds = d" "\<forall>e\<in>set ds. \<not> key_less (position_key e) (position_key d)"
    | (later) k where "k < length ds" "min_from d ds = ds ! k"
        "key_less (position_key (ds ! k)) (position_key d)"
        "\<forall>j<length ds. \<not> key_less (position_key (ds ! j)) (position_key (ds ! k))"
        "\<forall>j<k. key_less (position_key (ds ! k)) (position_key (ds ! j))"
    by blast
  then show ?thesis
  proof cases
    case keep
    have "\<forall>j<length ps. \<not> key_less (position_key (ps ! j)) (position_key (ps ! 0))"
    proof (intro allI impI)
      fix j assume "j < length ps"
      then show "\<not> key_less (position_key (ps ! j)) (position_key (ps ! 0))"
        using keep(2) ps by (cases j) simp_all
    qed
    with keep(1) ps show ?thesis by (intro exI [of _ 0]) simp
  next
    case later
    have "\<forall>j<length ps. \<not> key_less (position_key (ps ! j)) (position_key (ps ! Suc k))"
    proof (intro allI impI)
      fix j assume j: "j < length ps"
      show "\<not> key_less (position_key (ps ! j)) (position_key (ps ! Suc k))"
      proof (cases j)
        case 0
        with later(3) ps show ?thesis by (auto simp: key_less_def)
      next
        case (Suc i)
        with j later(4) ps show ?thesis by simp
      qed
    qed
    moreover have "\<forall>j<Suc k. key_less (position_key (ps ! Suc k)) (position_key (ps ! j))"
    proof (intro allI impI)
      fix j assume j: "j < Suc k"
      show "key_less (position_key (ps ! Suc k)) (position_key (ps ! j))"
      proof (cases j)
        case 0
        with later(3) ps show ?thesis by simp
      next
        case (Suc i)
        with j later(5) ps show ?thesis by simp
      qed
    qed
    ultimately show ?thesis using later(1,2) ps
      by (intro exI [of _ "Suc k"]) simp
  qed
qed

lemma py_min_Returns: "py_min ps = Returns best \<Longrightarrow> best \<in> set ps"
proof (cases "ps = []")
  case True
  assume "py_min ps = Returns best"
  with True show ?thesis by simp
next
  case False
  assume ret: "py_min ps = Returns best"
  from py_min_first [OF False] obtain k where "k < length ps" "py_min ps = Returns (ps ! k)"
    by blast
  with ret show ?thesis by auto
qed

subsection \<open>The commit\<close>

lemma commit_Returns:
  assumes "commit G stepx st best = Returns st'"
    and "sh_bounds G (pos_geom best) = (minx, miny, maxx, maxy)"
  shows "\<exists>k yoffs2.
           py_slot (starting_yoffs st) (pos_x best) = Some k
         \<and> raise_levels ((starting_yoffs st)[k := pos_yoff best])
              (py_range \<lceil>minx / stepx\<rceil> \<lfloor>maxx / stepx\<rfloor>) miny = Returns yoffs2
         \<and> st' = \<lparr>result = sh_union G (result st) (pos_geom best),
                   simplified_result =
                     sh_union G (sh_union G (simplified_result st) (pos_geom best))
                       (shadow G (minx, miny, maxx, maxy)),
                   simplified_result_prepared =
                     sh_union G (sh_union G (simplified_result st) (pos_geom best))
                       (shadow G (minx, miny, maxx, maxy)),
                   starting_yoffs = yoffs2,
                   nb_placed = nb_placed st + 1,
                   global_maxy = max maxy (global_maxy st),
                   placed = placed st @ [best]\<rparr>"
  using assms
  by (auto simp: commit_def Let_def and_then_eq_Returns setitem_Returns)

lemma place_piece_Returns:
  assumes "place_piece G width stepx stepy n st geom = Returns st'"
  shows "\<exists>ps best. candidates G width stepx stepy n st geom = Returns ps
           \<and> py_min ps = Returns best \<and> commit G stepx st best = Returns st'"
  using assms by (auto simp: place_piece_def and_then_eq_Returns)

subsection \<open>The loop over the pieces\<close>

lemma place_all_append:
  "place_all G width stepx stepy n st (gs1 @ gs2) =
     and_then (place_all G width stepx stepy n st gs1)
       (\<lambda>st1. place_all G width stepx stepy n st1 gs2)"
proof (induction gs1 arbitrary: st)
  case Nil
  show ?case by simp
next
  case (Cons g gs1)
  show ?case
    by (cases "place_piece G width stepx stepy n st g") (simp_all add: Cons.IH)
qed

lemma place_all_invariant:
  assumes step: "\<And>st g st'. I st \<Longrightarrow> place_piece G width stepx stepy n st g = Returns st' \<Longrightarrow> I st'"
  shows "I st \<Longrightarrow> place_all G width stepx stepy n st gs = Returns st' \<Longrightarrow> I st'"
proof (induction gs arbitrary: st)
  case Nil
  then show ?case by simp
next
  case (Cons g gs)
  from Cons.prems(2) obtain st1 where
    one: "place_piece G width stepx stepy n st g = Returns st1"
    and rest: "place_all G width stepx stepy n st1 gs = Returns st'"
    by (auto simp: and_then_eq_Returns)
  from step [OF Cons.prems(1) one] have "I st1" .
  then show ?case using rest by (rule Cons.IH)
qed

lemma tetris_run_append:
  "tetris_run G (gs1 @ gs2) width stepx stepy n =
     and_then (tetris_run G gs1 width stepx stepy n)
       (\<lambda>st1. place_all G width stepx stepy n st1 gs2)"
  by (simp add: tetris_run_def place_all_append)

subsection \<open>The committed placements stay apart\<close>

lemma apart_snoc:
  "apart G (ps @ [q]) \<longleftrightarrow>
     apart G ps \<and> (\<forall>p\<in>set ps. \<not> sh_intersects G (pos_geom p) (pos_geom q))"
proof
  assume a: "apart G (ps @ [q])"
  have "apart G ps"
    unfolding apart_def
  proof (intro allI impI)
    fix j i assume "j < length ps" "i < j"
    with a [unfolded apart_def, rule_format, of j i]
    show "\<not> sh_intersects G (pos_geom (ps ! i)) (pos_geom (ps ! j))"
      by (simp add: nth_append)
  qed
  moreover have "\<forall>p\<in>set ps. \<not> sh_intersects G (pos_geom p) (pos_geom q)"
  proof
    fix p assume "p \<in> set ps"
    then obtain i where i: "i < length ps" "p = ps ! i" by (auto simp: in_set_conv_nth)
    with a [unfolded apart_def, rule_format, of "length ps" i]
    show "\<not> sh_intersects G (pos_geom p) (pos_geom q)"
      by (simp add: nth_append)
  qed
  ultimately show "apart G ps \<and> (\<forall>p\<in>set ps. \<not> sh_intersects G (pos_geom p) (pos_geom q))" ..
next
  assume b: "apart G ps \<and> (\<forall>p\<in>set ps. \<not> sh_intersects G (pos_geom p) (pos_geom q))"
  show "apart G (ps @ [q])"
    unfolding apart_def
  proof (intro allI impI)
    fix j i assume j: "j < length (ps @ [q])" and i: "i < j"
    show "\<not> sh_intersects G (pos_geom ((ps @ [q]) ! i)) (pos_geom ((ps @ [q]) ! j))"
    proof (cases "j < length ps")
      case True
      with b i show ?thesis by (simp add: apart_def nth_append)
    next
      case False
      with j have "j = length ps" by simp
      with b i show ?thesis by (simp add: nth_append)
    qed
  qed
qed

lemma covered_initial: "covered G (initial_state G m)"
  by (simp add: covered_def initial_state_def apart_def)

lemma candidate_free:
  assumes "candidate G st stepx stepy geom_rotated x = Returns p"
  shows "\<not> sh_intersects G (simplified_result_prepared st) (pos_geom p)"
proof -
  obtain minx miny maxx maxy where "sh_bounds G geom_rotated = (minx, miny, maxx, maxy)"
    by (cases "sh_bounds G geom_rotated") auto
  from candidate_Returns [OF assms this] show ?thesis by blast
qed

lemma covered_place_piece:
  assumes laws: "union_covers G"
    and inv: "covered G st"
    and one: "place_piece G width stepx stepy n st geom = Returns st'"
  shows "covered G st'"
proof -
  from place_piece_Returns [OF one] obtain ps best where
    ps: "candidates G width stepx stepy n st geom = Returns ps"
    and best: "py_min ps = Returns best"
    and com: "commit G stepx st best = Returns st'"
    by blast
  have "list_all (\<lambda>p. \<not> sh_intersects G (simplified_result_prepared st) (pos_geom p)) ps"
    using candidate_free ps by (rule candidates_all)
  with py_min_Returns [OF best]
  have free: "\<not> sh_intersects G (simplified_result st) (pos_geom best)"
    using inv by (simp add: list_all_iff covered_def)
  obtain minx miny maxx maxy where
    b: "sh_bounds G (pos_geom best) = (minx, miny, maxx, maxy)"
    by (cases "sh_bounds G (pos_geom best)") auto
  let ?s1 = "sh_union G (simplified_result st) (pos_geom best)"
  let ?s2 = "sh_union G ?s1 (shadow G (minx, miny, maxx, maxy))"
  from commit_Returns [OF com b] have
    prep: "simplified_result_prepared st' = ?s2"
    and simp: "simplified_result st' = ?s2"
    and pl: "placed st' = placed st @ [best]"
    by auto
  have up: "sh_intersects G ?s2 c" if "sh_intersects G (simplified_result st) c \<or> sh_intersects G (pos_geom best) c" for c
  proof -
    from that laws have "sh_intersects G ?s1 c" unfolding union_covers_def by blast
    with laws show ?thesis unfolding union_covers_def by blast
  qed
  have old: "\<forall>p\<in>set (placed st). \<not> sh_intersects G (pos_geom p) (pos_geom best)"
    using inv free unfolding covered_def by blast
  have "\<forall>p\<in>set (placed st'). \<forall>c. sh_intersects G (pos_geom p) c \<longrightarrow> sh_intersects G ?s2 c"
  proof (intro ballI allI impI)
    fix p c assume p: "p \<in> set (placed st')" and hit: "sh_intersects G (pos_geom p) c"
    show "sh_intersects G ?s2 c"
    proof (cases "p = best")
      case True
      with hit show ?thesis by (intro up) simp
    next
      case False
      with p pl have "p \<in> set (placed st)" by simp
      with inv hit have "sh_intersects G (simplified_result st) c"
        unfolding covered_def by blast
      then show ?thesis by (intro up) simp
    qed
  qed
  moreover have "apart G (placed st')"
    using inv old by (simp add: pl apart_snoc covered_def)
  ultimately show ?thesis
    by (simp add: covered_def prep simp)
qed

lemma covered_place_all:
  assumes "union_covers G" "covered G st"
    and "place_all G width stepx stepy n st gs = Returns st'"
  shows "covered G st'"
proof -
  have step: "covered G s \<Longrightarrow> place_piece G width stepx stepy n s g = Returns s' \<Longrightarrow> covered G s'"
    for s g s'
    using assms(1) by (rule covered_place_piece)
  from assms(2,3) show ?thesis
    using place_all_invariant [of "covered G" G width stepx stepy n st gs st'] step by blast
qed

lemma place_piece_placed:
  assumes "place_piece G width stepx stepy n st geom = Returns st'"
  shows "\<exists>best. placed st' = placed st @ [best]"
proof -
  from place_piece_Returns [OF assms] obtain best where
    com: "commit G stepx st best = Returns st'" by blast
  obtain minx miny maxx maxy where
    b: "sh_bounds G (pos_geom best) = (minx, miny, maxx, maxy)"
    by (cases "sh_bounds G (pos_geom best)") auto
  from commit_Returns [OF com b] show ?thesis by auto
qed

lemma place_all_placed:
  "place_all G width stepx stepy n st gs = Returns st' \<Longrightarrow>
   \<exists>new. placed st' = placed st @ new \<and> length new = length gs"
proof (induction gs arbitrary: st)
  case Nil
  then show ?case by simp
next
  case (Cons g gs)
  from Cons.prems obtain st1 where
    one: "place_piece G width stepx stepy n st g = Returns st1"
    and rest: "place_all G width stepx stepy n st1 gs = Returns st'"
    by (auto simp: and_then_eq_Returns)
  from place_piece_placed [OF one] obtain best where b: "placed st1 = placed st @ [best]" ..
  from Cons.IH [OF rest] obtain new where "placed st' = placed st1 @ new" "length new = length gs"
    by blast
  with b show ?case by (intro exI [of _ "best # new"]) simp
qed

lemma tetris_run_Returns:
  "tetris_run G gs width stepx stepy n = Returns st \<Longrightarrow>
   stepx \<noteq> 0 \<and> place_all G width stepx stepy n (initial_state G (py_int (width / stepx))) gs = Returns st"
  by (auto simp: tetris_run_def split: if_splits)

lemma tetris_run_covered:
  assumes "union_covers G" and "tetris_run G gs width stepx stepy n = Returns st"
  shows "covered G st \<and> length (placed st) = length gs"
proof -
  from tetris_run_Returns [OF assms(2)] have
    run: "place_all G width stepx stepy n (initial_state G (py_int (width / stepx))) gs = Returns st"
    by simp
  from covered_place_all [OF assms(1) covered_initial run] have "covered G st" .
  moreover from place_all_placed [OF run] have "length (placed st) = length gs"
    by (auto simp: initial_state_def)
  ultimately show ?thesis ..
qed

subsection \<open>The geometry of boxes satisfies the two facts\<close>

lemma box_meets_commute: "box_meets a b = box_meets b a"
  by (auto simp: box_meets_def max.commute min.commute split: prod.splits)

lemma Boxes_union_covers: "union_covers Boxes"
  by (auto simp: union_covers_def Boxes_def boxes_intersects_def)

lemma Boxes_intersects_symmetric: "intersects_symmetric Boxes"
proof -
  have "boxes_intersects a b = boxes_intersects b a" for a b
    unfolding boxes_intersects_def list_ex_iff
    using box_meets_commute by blast
  then show ?thesis
    by (simp add: intersects_symmetric_def Boxes_def)
qed

lemma box_common_area_zero: "\<not> box_meets a b \<Longrightarrow> box_common_area a b = 0"
  by (auto simp: box_meets_def box_common_area_def split: prod.splits)

lemma boxes_common_area_zero:
  assumes "\<not> sh_intersects Boxes a g"
  shows "boxes_common_area a g = 0"
proof -
  from assms have pairs: "\<forall>r\<in>set a. \<forall>s\<in>set g. box_common_area r s = 0"
    by (auto simp: Boxes_def boxes_intersects_def list_ex_iff box_common_area_zero)
  have zero: "(\<forall>x\<in>set xs. f x = 0) \<Longrightarrow> sum_list (map f xs) = (0::rat)" for f and xs :: "box list"
    by (induction xs) simp_all
  from pairs have "\<forall>r\<in>set a. sum_list (map (box_common_area r) g) = 0"
    by (simp add: zero)
  then show ?thesis
    unfolding boxes_common_area_def by (rule zero)
qed

subsection \<open>A single candidate, unfolded\<close>

lemma candidate_unfold:
  assumes "sh_bounds G geom_rotated = (minx, miny, maxx, maxy)"
    and "getitem (starting_yoffs st) x = Returns w"
  shows "candidate G st stepx stepy geom_rotated x =
           (case probe G (simplified_result_prepared st)
                   (sh_translate G geom_rotated (of_int x * stepx) (- miny)) stepy w
                   (sh_translate G geom_rotated (of_int x * stepx) (- miny)) of
              None \<Rightarrow> Diverges
            | Some (yoff', geom_yshifted) \<Rightarrow>
                Returns \<lparr>pos_x = x, pos_yoff = yoff', pos_maxy = yoff' + maxy - miny,
                         pos_geom = geom_yshifted\<rparr>)"
  using assms by (simp add: candidate_def Let_def)

subsection \<open>Pieces without a column\<close>

lemma py_range_empty: "b \<le> a \<Longrightarrow> py_range a b = []"
  by (simp add: py_range_def)

lemma columns_too_wide:
  assumes "0 < stepx" and "sh_bounds G geom_rotated = (minx, miny, maxx, maxy)"
    and "width < maxx - minx"
  shows "columns G width stepx geom_rotated = []"
proof -
  from assms(3) have "width - maxx < - minx" by simp
  from divide_strict_right_mono [OF this assms(1)]
  have "(width - maxx) / stepx < - minx / stepx" .
  moreover have "of_int \<lfloor>(width - maxx) / stepx\<rfloor> \<le> (width - maxx) / stepx" by simp
  moreover have "- minx / stepx \<le> of_int \<lceil>- minx / stepx\<rceil>" by simp
  ultimately have "(of_int \<lfloor>(width - maxx) / stepx\<rfloor> :: rat) < of_int \<lceil>- minx / stepx\<rceil>"
    by linarith
  then have "\<lfloor>(width - maxx) / stepx\<rfloor> \<le> \<lceil>- minx / stepx\<rceil>" by simp
  with assms(2) show ?thesis by (simp add: columns_def py_range_empty)
qed

lemma try_orientations_no_columns:
  "\<forall>i\<in>set is. columns G width stepx (sh_rotate G geom (orientation_angle n i)) = [] \<Longrightarrow>
   try_orientations G st width stepx stepy n geom is acc = Returns acc"
  by (induction "is") (simp_all add: Let_def)

lemma place_piece_no_candidates:
  assumes "candidates G width stepx stepy n st geom = Returns []"
  shows "place_piece G width stepx stepy n st geom = Raises ValueError"
  using assms by (simp add: place_piece_def)

subsection \<open>A search that cannot move\<close>

lemma probe_stuck:
  assumes "sh_intersects G prepared g" and "sh_intersects G prepared (sh_translate G gx 0 yoff)"
  shows "probe G prepared gx 0 yoff g = None"
proof -
  have "sh_intersects G prepared (probed G gx 0 yoff g k)" for k
    using assms by (cases k) (simp_all add: probed_def)
  then show ?thesis by (simp add: probe_None_iff)
qed

lemma below_3: "j < 3 \<Longrightarrow> j = 0 \<or> j = 1 \<or> j = (2::nat)"
  by arith

subsection \<open>The order of the candidates\<close>

lemma try_columns_order:
  "try_columns G st stepx stepy gr xs acc = Returns ps \<Longrightarrow>
   map Returns ps = map Returns acc @ map (candidate G st stepx stepy gr) xs"
proof (induction xs arbitrary: acc)
  case Nil
  then show ?case by simp
next
  case (Cons x xs)
  from Cons.prems obtain p where p: "candidate G st stepx stepy gr x = Returns p"
    and rest: "try_columns G st stepx stepy gr xs (acc @ [p]) = Returns ps"
    by (auto simp: and_then_eq_Returns)
  from Cons.IH [OF rest] p show ?case by simp
qed

lemma try_orientations_order:
  "try_orientations G st width stepx stepy n geom is acc = Returns ps \<Longrightarrow>
   map Returns ps = map Returns acc @
     concat (map (\<lambda>i. map (candidate G st stepx stepy (sh_rotate G geom (orientation_angle n i)))
                         (columns G width stepx (sh_rotate G geom (orientation_angle n i)))) is)"
proof (induction "is" arbitrary: acc)
  case Nil
  then show ?case by simp
next
  case (Cons i "is")
  let ?gr = "sh_rotate G geom (orientation_angle n i)"
  from Cons.prems obtain mid where
    mid: "try_columns G st stepx stepy ?gr (columns G width stepx ?gr) acc = Returns mid"
    and rest: "try_orientations G st width stepx stepy n geom is mid = Returns ps"
    by (auto simp: and_then_eq_Returns Let_def)
  from Cons.IH [OF rest] try_columns_order [OF mid] show ?case by simp
qed

subsection \<open>Water levels only rise\<close>

lemma candidate_not_below_level:
  assumes "0 \<le> stepy" and "candidate G st stepx stepy geom_rotated x = Returns p"
  shows "\<exists>w. getitem (starting_yoffs st) (pos_x p) = Returns w \<and> w \<le> pos_yoff p"
proof -
  obtain minx miny maxx maxy where b: "sh_bounds G geom_rotated = (minx, miny, maxx, maxy)"
    by (cases "sh_bounds G geom_rotated") auto
  from candidate_Returns [OF assms(2) b] obtain w k where
    w: "getitem (starting_yoffs st) x = Returns w"
    and p: "p = \<lparr>pos_x = x, pos_yoff = w + of_nat k * stepy,
                  pos_maxy = w + of_nat k * stepy + maxy - miny,
                  pos_geom = probed G (sh_translate G geom_rotated (of_int x * stepx) (- miny))
                               stepy w (sh_translate G geom_rotated (of_int x * stepx) (- miny)) k\<rparr>"
    by blast
  from assms(1) have "0 \<le> of_nat k * stepy" by simp
  with w p show ?thesis by simp
qed

lemma raise_levels_monotone:
  fixes ys :: "rat list"
  assumes "raise_levels ys xs m = Returns zs"
  shows "list_all2 (\<le>) ys zs"
proof -
  from raise_levels_Returns [OF assms] have "length zs = length ys"
    and "\<forall>c<length ys. ys ! c \<le> zs ! c"
    by auto
  then show ?thesis by (simp add: list_all2_conv_all_nth)
qed

lemma setitem_monotone:
  fixes ys :: "rat list"
  assumes "getitem ys i = Returns w" and "w \<le> v" and "setitem ys i v = Returns zs"
  shows "list_all2 (\<le>) ys zs"
proof -
  from assms(1,3) obtain k where k: "py_slot ys i = Some k" and w: "w = ys ! k"
    and zs: "zs = ys[k := v]"
    by (auto simp: getitem_Returns setitem_Returns)
  have "ys ! c \<le> zs ! c" if "c < length ys" for c
    using that assms(2) w zs by (cases "c = k") simp_all
  with zs show ?thesis by (simp add: list_all2_conv_all_nth)
qed

lemma commit_monotone:
  assumes w: "getitem (starting_yoffs st) (pos_x best) = Returns w" and le: "w \<le> pos_yoff best"
    and com: "commit G stepx st best = Returns st'"
  shows "list_all2 (\<le>) (starting_yoffs st) (starting_yoffs st')"
proof -
  obtain minx miny maxx maxy where
    b: "sh_bounds G (pos_geom best) = (minx, miny, maxx, maxy)"
    by (cases "sh_bounds G (pos_geom best)") auto
  from commit_Returns [OF com b] obtain k yoffs2 where
    k: "py_slot (starting_yoffs st) (pos_x best) = Some k"
    and r: "raise_levels ((starting_yoffs st)[k := pos_yoff best])
              (py_range \<lceil>minx / stepx\<rceil> \<lfloor>maxx / stepx\<rfloor>) miny = Returns yoffs2"
    and y: "starting_yoffs st' = yoffs2"
    by auto
  from k have "setitem (starting_yoffs st) (pos_x best) (pos_yoff best) =
                 Returns ((starting_yoffs st)[k := pos_yoff best])"
    by (simp add: setitem_def)
  with w le have "list_all2 (\<le>) (starting_yoffs st) ((starting_yoffs st)[k := pos_yoff best])"
    by (rule setitem_monotone)
  moreover from r have "list_all2 (\<le>) ((starting_yoffs st)[k := pos_yoff best]) yoffs2"
    by (rule raise_levels_monotone)
  ultimately show ?thesis
    unfolding y by (rule list_all2_trans [rotated]) simp
qed

lemma place_piece_monotone:
  assumes "0 \<le> stepy" and one: "place_piece G width stepx stepy n st geom = Returns st'"
  shows "list_all2 (\<le>) (starting_yoffs st) (starting_yoffs st')"
proof -
  from place_piece_Returns [OF one] obtain ps best where
    ps: "candidates G width stepx stepy n st geom = Returns ps"
    and best: "py_min ps = Returns best"
    and com: "commit G stepx st best = Returns st'"
    by blast
  have each: "candidate G st stepx stepy gr x = Returns p \<Longrightarrow>
              \<exists>w. getitem (starting_yoffs st) (pos_x p) = Returns w \<and> w \<le> pos_yoff p" for gr x p
    using assms(1) by (rule candidate_not_below_level)
  have "list_all (\<lambda>p. \<exists>w. getitem (starting_yoffs st) (pos_x p) = Returns w \<and> w \<le> pos_yoff p) ps"
    using candidates_all [of G st stepx stepy
            "\<lambda>p. \<exists>w. getitem (starting_yoffs st) (pos_x p) = Returns w \<and> w \<le> pos_yoff p"
            width n geom ps] each ps
    by blast
  with py_min_Returns [OF best] obtain w where
    "getitem (starting_yoffs st) (pos_x best) = Returns w" "w \<le> pos_yoff best"
    by (auto simp: list_all_iff)
  then show ?thesis using com by (rule commit_monotone)
qed

lemma place_all_monotone:
  assumes "0 \<le> stepy"
  shows "place_all G width stepx stepy n st gs = Returns st' \<Longrightarrow>
         list_all2 (\<le>) (starting_yoffs st) (starting_yoffs st')"
proof (induction gs arbitrary: st)
  case Nil
  then show ?case by (simp add: list_all2_refl)
next
  case (Cons g gs)
  from Cons.prems obtain st1 where
    one: "place_piece G width stepx stepy n st g = Returns st1"
    and rest: "place_all G width stepx stepy n st1 gs = Returns st'"
    by (auto simp: and_then_eq_Returns)
  from place_piece_monotone [OF assms one] Cons.IH [OF rest]
  show ?case by (rule list_all2_trans [rotated]) simp
qed

section \<open>Evaluation of concrete runs\<close>

lemmas run_simps = tetris_run_def place_piece_def candidates_def
  candidate_def columns_def commit_def shadow_def
  initial_state_def py_int_def py_range_def getitem_def setitem_def py_slot_def
  orientation_angle_def position_key_def key_less_def
  Boxes_def boxes_rotate_def boxes_bounds_def boxes_intersects_def boxes_Polygon_def
  box_translate_def box_quarter_turn_def box_meets_def square_def Let_def
  probe.simps upto_rec1 eval_nat_numeral
  small_square_def placements_def water_levels_def committed_columns_def bar_def hook_def

section \<open>The claims\<close>

text \<open>
  C1. No overlap of committed placements. Whenever a run returns, the state after any
  number of its commits (the run on the first pieces \<open>gs1\<close> of the input) holds one
  placement for each piece, these are never changed later, and any two of them share no
  point: \<^verbatim>\<open>intersects\<close> is false for them, so the area they have in common is zero,
  below every positive epsilon. The reason is the one the claim gives: a candidate leaves
  the vertical search only when it does not intersect the simplified result, which
  covers every geometry committed before. The library facts used are that a union
  intersects what its parts intersect, that \<^verbatim>\<open>intersects\<close> is symmetric, and that
  geometries that do not intersect have a common area of zero.
\<close>

theorem no_overlap_of_committed_placements:
  assumes laws: "union_covers G" and sym: "intersects_symmetric G"
    and area: "\<forall>a b. \<not> sh_intersects G a b \<longrightarrow> common_area a b = (0::rat)"
    and eps: "0 < epsilon"
    and run: "tetris_run G (gs1 @ gs2) width stepx stepy n = Returns st"
  shows "\<exists>st1. tetris_run G gs1 width stepx stepy n = Returns st1
           \<and> placed st1 = take (length gs1) (placed st)
           \<and> length (placed st1) = length gs1
           \<and> (\<forall>i<length gs1. \<forall>j<length gs1. i \<noteq> j \<longrightarrow>
                 \<not> sh_intersects G (pos_geom (placed st1 ! i)) (pos_geom (placed st1 ! j))
                 \<and> common_area (pos_geom (placed st1 ! i)) (pos_geom (placed st1 ! j)) < epsilon)"
proof -
  from run obtain st1 where
    run1: "tetris_run G gs1 width stepx stepy n = Returns st1"
    and rest: "place_all G width stepx stepy n st1 gs2 = Returns st"
    by (auto simp: tetris_run_append and_then_eq_Returns)
  from tetris_run_covered [OF laws run1] have
    cov: "covered G st1" and len: "length (placed st1) = length gs1" by simp_all
  from place_all_placed [OF rest] obtain new where "placed st = placed st1 @ new" by blast
  with len have prefix: "placed st1 = take (length gs1) (placed st)" by simp
  from cov have ap: "apart G (placed st1)" by (simp add: covered_def)
  have pair: "\<not> sh_intersects G (pos_geom (placed st1 ! i)) (pos_geom (placed st1 ! j))"
    if "i < length gs1" "j < length gs1" "i \<noteq> j" for i j
  proof (cases "i < j")
    case True
    with ap that len show ?thesis by (simp add: apart_def)
  next
    case False
    with that have "j < i" by simp
    with ap that len
    have "\<not> sh_intersects G (pos_geom (placed st1 ! j)) (pos_geom (placed st1 ! i))"
      by (simp add: apart_def)
    with sym show ?thesis by (simp add: intersects_symmetric_def)
  qed
  have "\<forall>i<length gs1. \<forall>j<length gs1. i \<noteq> j \<longrightarrow>
          \<not> sh_intersects G (pos_geom (placed st1 ! i)) (pos_geom (placed st1 ! j))
          \<and> common_area (pos_geom (placed st1 ! i)) (pos_geom (placed st1 ! j)) < epsilon"
    using pair area eps by simp
  with run1 prefix len show ?thesis by blast
qed

theorem no_overlap_of_committed_placements_witness:
  "union_covers Boxes \<and> intersects_symmetric Boxes \<and> (0::rat) < 1 / 1000000
   \<and> placements (tetris_run Boxes ([square, square] @ [square]) 10 1 1 1) =
       Returns [\<lparr>pos_x = 1, pos_yoff = 0, pos_maxy = 2, pos_geom = [(0, 0, 2, 2)]\<rparr>,
                \<lparr>pos_x = 4, pos_yoff = 0, pos_maxy = 2, pos_geom = [(3, 0, 5, 2)]\<rparr>,
                \<lparr>pos_x = 7, pos_yoff = 0, pos_maxy = 2, pos_geom = [(6, 0, 8, 2)]\<rparr>]
   \<and> (\<exists>st1. tetris_run Boxes [square, square] 10 1 1 1 = Returns st1
         \<and> length (placed st1) = 2
         \<and> \<not> sh_intersects Boxes (pos_geom (placed st1 ! 0)) (pos_geom (placed st1 ! 1))
         \<and> boxes_common_area (pos_geom (placed st1 ! 0)) (pos_geom (placed st1 ! 1)) < 1 / 1000000)"
proof -
  have run: "tetris_run Boxes ([square, square] @ [square]) 10 1 1 1 = Returns
    \<lparr>result = [(0, 0, 2, 2), (3, 0, 5, 2), (6, 0, 8, 2)],
     simplified_result =
       [(0, 0, 2, 2), (0, - (1 / 1000000), 2, - (1 / 1000000)),
        (3, 0, 5, 2), (3, - (1 / 1000000), 5, - (1 / 1000000)),
        (6, 0, 8, 2), (6, - (1 / 1000000), 8, - (1 / 1000000))],
     simplified_result_prepared =
       [(0, 0, 2, 2), (0, - (1 / 1000000), 2, - (1 / 1000000)),
        (3, 0, 5, 2), (3, - (1 / 1000000), 5, - (1 / 1000000)),
        (6, 0, 8, 2), (6, - (1 / 1000000), 8, - (1 / 1000000))],
     starting_yoffs = [0, 0, 0, 0, 0, 0, 0, 0, 0, 0], nb_placed = 3,
     global_maxy = 2,
     placed =
       [\<lparr>pos_x = 1, pos_yoff = 0, pos_maxy = 2, pos_geom = [(0, 0, 2, 2)]\<rparr>,
        \<lparr>pos_x = 4, pos_yoff = 0, pos_maxy = 2, pos_geom = [(3, 0, 5, 2)]\<rparr>,
        \<lparr>pos_x = 7, pos_yoff = 0, pos_maxy = 2, pos_geom = [(6, 0, 8, 2)]\<rparr>]\<rparr>"
    by (simp add: run_simps)
  have area: "\<forall>a b. \<not> sh_intersects Boxes a b \<longrightarrow> boxes_common_area a b = 0"
    using boxes_common_area_zero by blast
  have eps: "(0::rat) < 1 / 1000000" by simp
  from no_overlap_of_committed_placements
         [OF Boxes_union_covers Boxes_intersects_symmetric area eps run]
  obtain st1 where "tetris_run Boxes [square, square] 10 1 1 1 = Returns st1"
    and "length (placed st1) = 2"
    and "\<forall>i<2. \<forall>j<2. i \<noteq> j \<longrightarrow>
           \<not> sh_intersects Boxes (pos_geom (placed st1 ! i)) (pos_geom (placed st1 ! j))
           \<and> boxes_common_area (pos_geom (placed st1 ! i)) (pos_geom (placed st1 ! j)) < 1 / 1000000"
    by auto
  then have "\<exists>st1. tetris_run Boxes [square, square] 10 1 1 1 = Returns st1
         \<and> length (placed st1) = 2
         \<and> \<not> sh_intersects Boxes (pos_geom (placed st1 ! 0)) (pos_geom (placed st1 ! 1))
         \<and> boxes_common_area (pos_geom (placed st1 ! 0)) (pos_geom (placed st1 ! 1)) < 1 / 1000000"
    by (intro exI [of _ st1]) simp
  moreover have "placements (tetris_run Boxes ([square, square] @ [square]) 10 1 1 1) =
       Returns [\<lparr>pos_x = 1, pos_yoff = 0, pos_maxy = 2, pos_geom = [(0, 0, 2, 2)]\<rparr>,
                \<lparr>pos_x = 4, pos_yoff = 0, pos_maxy = 2, pos_geom = [(3, 0, 5, 2)]\<rparr>,
                \<lparr>pos_x = 7, pos_yoff = 0, pos_maxy = 2, pos_geom = [(6, 0, 8, 2)]\<rparr>]"
    by (simp only: run placements_def and_then_Returns pack_state.simps)
  ultimately show ?thesis
    using Boxes_union_covers Boxes_intersects_symmetric eps by blast
qed

text \<open>
  C2. The single square on an empty sheet. As stated the claim fails: the column index
  that the code records for the square is 1, not 0.
\<close>

theorem single_square_column_counterexample:
  "committed_columns (tetris_run Boxes [square] 10 1 1 1) = Returns [1]
   \<and> committed_columns (tetris_run Boxes [square] 10 1 1 1) \<noteq> Returns [0]"
  by (simp add: run_simps)

text \<open>
  C2, amended. The column index of the code counts the steps by which the pivot, not
  the left edge of the bounding box, is shifted. For the square the columns tried are
  1 to 8; the square is committed at column 1, the leftmost of them, where the left
  edge of its bounding box is at 0; its resting height is 0 and its final bounding box
  has \<open>miny = 0\<close> and \<open>maxy = 2\<close>.
\<close>

theorem single_square_on_empty_sheet:
  "columns Boxes 10 1 (sh_rotate Boxes square (orientation_angle 1 0)) = [1, 2, 3, 4, 5, 6, 7, 8]
   \<and> placements (tetris_run Boxes [square] 10 1 1 1) =
       Returns [\<lparr>pos_x = 1, pos_yoff = 0, pos_maxy = 2, pos_geom = [(0, 0, 2, 2)]\<rparr>]
   \<and> sh_bounds Boxes [(0, 0, 2, 2)] = (0, 0, 2, 2)
   \<and> tetris_pack Boxes [square] 10 1 1 1 = Returns [(0, 0, 2, 2)]"
  by (simp add: run_simps tetris_pack_def)

text \<open>
  C3. A piece wider than the sheet. As stated the claim fails: the run on a square of
  width 2 and a sheet of width 1 ends with the exception \<^verbatim>\<open>ValueError\<close>, also when
  a piece that fits comes before it and another one after it. Nothing is returned, and
  the exception does not name the piece.
\<close>

theorem piece_too_wide_counterexample:
  "tetris_pack Boxes [square] 1 (1 / 4) (1 / 4) 1 = Raises ValueError
   \<and> tetris_pack Boxes [small_square] 1 (1 / 4) (1 / 4) 1 = Returns [(0, 0, 1 / 2, 1 / 2)]
   \<and> tetris_pack Boxes [small_square, square, small_square] 1 (1 / 4) (1 / 4) 1 = Raises ValueError"
  by (simp add: run_simps tetris_pack_def)

text \<open>
  C3, amended. For a positive \<open>stepx\<close>, a piece whose rotated bounding box is wider than
  the sheet in every orientation has no column in any orientation, so that
  \<^verbatim>\<open>possible_positions\<close> is empty and \<^verbatim>\<open>min\<close> raises \<^verbatim>\<open>ValueError\<close>.
  The exception ends the whole run, whatever was placed before and whatever comes
  after; there is no error of the piece's own.
\<close>

theorem piece_too_wide_raises_ValueError:
  assumes "0 < stepx"
    and wide: "\<forall>i\<in>set (py_range 0 n).
            case sh_bounds G (sh_rotate G geom (orientation_angle n i)) of
              (minx, miny, maxx, maxy) \<Rightarrow> width < maxx - minx"
    and before: "tetris_run G gs1 width stepx stepy n = Returns st1"
  shows "place_piece G width stepx stepy n st1 geom = Raises ValueError
         \<and> tetris_run G (gs1 @ geom # gs2) width stepx stepy n = Raises ValueError
         \<and> tetris_pack G (gs1 @ geom # gs2) width stepx stepy n = Raises ValueError"
proof -
  have "\<forall>i\<in>set (py_range 0 n).
          columns G width stepx (sh_rotate G geom (orientation_angle n i)) = []"
  proof
    fix i assume i: "i \<in> set (py_range 0 n)"
    obtain minx miny maxx maxy where
      b: "sh_bounds G (sh_rotate G geom (orientation_angle n i)) = (minx, miny, maxx, maxy)"
      by (cases "sh_bounds G (sh_rotate G geom (orientation_angle n i))") auto
    with wide i have "width < maxx - minx" by fastforce
    with assms(1) b show "columns G width stepx (sh_rotate G geom (orientation_angle n i)) = []"
      by (rule columns_too_wide)
  qed
  then have "candidates G width stepx stepy n st1 geom = Returns []"
    by (simp add: candidates_def try_orientations_no_columns)
  then have one: "place_piece G width stepx stepy n st1 geom = Raises ValueError"
    by (rule place_piece_no_candidates)
  then have "place_all G width stepx stepy n st1 (geom # gs2) = Raises ValueError" by simp
  with before have run: "tetris_run G (gs1 @ geom # gs2) width stepx stepy n = Raises ValueError"
    by (simp add: tetris_run_append)
  then have "tetris_pack G (gs1 @ geom # gs2) width stepx stepy n = Raises ValueError"
    by (simp add: tetris_pack_def)
  with one run show ?thesis by simp
qed

theorem piece_too_wide_raises_ValueError_witness:
  "(0::rat) < 1 / 4
   \<and> sh_bounds Boxes (sh_rotate Boxes square (orientation_angle 1 0)) = (-1, -1, 1, 1)
   \<and> (1::rat) < 1 - (- 1)
   \<and> placements (tetris_run Boxes [small_square] 1 (1 / 4) (1 / 4) 1) =
       Returns [\<lparr>pos_x = 1, pos_yoff = 0, pos_maxy = 1 / 2, pos_geom = [(0, 0, 1 / 2, 1 / 2)]\<rparr>]
   \<and> tetris_run Boxes ([small_square] @ square # [small_square]) 1 (1 / 4) (1 / 4) 1 =
       Raises ValueError
   \<and> tetris_pack Boxes ([small_square] @ square # [small_square]) 1 (1 / 4) (1 / 4) 1 =
       Raises ValueError"
proof -
  have step: "(0::rat) < 1 / 4" by simp
  have b: "sh_bounds Boxes (sh_rotate Boxes square (orientation_angle 1 0)) = (-1, -1, 1, 1)"
    by (simp add: run_simps)
  have wide: "\<forall>i\<in>set (py_range 0 1).
            case sh_bounds Boxes (sh_rotate Boxes square (orientation_angle 1 i)) of
              (minx, miny, maxx, maxy) \<Rightarrow> 1 < maxx - minx"
    by (simp add: run_simps)
  have before: "tetris_run Boxes [small_square] 1 (1 / 4) (1 / 4) 1 = Returns
    \<lparr>result = [(0, 0, 1 / 2, 1 / 2)],
     simplified_result =
       [(0, 0, 1 / 2, 1 / 2), (0, - (1 / 1000000), 1 / 2, - (1 / 1000000))],
     simplified_result_prepared =
       [(0, 0, 1 / 2, 1 / 2), (0, - (1 / 1000000), 1 / 2, - (1 / 1000000))],
     starting_yoffs = [0, 0, 0, 0], nb_placed = 1, global_maxy = 1 / 2,
     placed =
       [\<lparr>pos_x = 1, pos_yoff = 0, pos_maxy = 1 / 2,
           pos_geom = [(0, 0, 1 / 2, 1 / 2)]\<rparr>]\<rparr>"
    by (simp add: run_simps)
  have pl: "placements (tetris_run Boxes [small_square] 1 (1 / 4) (1 / 4) 1) =
       Returns [\<lparr>pos_x = 1, pos_yoff = 0, pos_maxy = 1 / 2, pos_geom = [(0, 0, 1 / 2, 1 / 2)]\<rparr>]"
    by (simp only: before placements_def and_then_Returns pack_state.simps)
  from piece_too_wide_raises_ValueError [OF step wide before, of "[small_square]"] b pl
  show ?thesis by simp
qed

text \<open>
  C4. The vertical search has no cap. As stated the claim fails: with \<open>stepy = 0\<close> the
  second of two squares on a sheet of width 3 collides in its only column, is "lifted"
  by zero for ever, and the run never ends.
\<close>

theorem vertical_search_unbounded_counterexample:
  "tetris_pack Boxes [square] 3 1 0 1 = Returns [(0, 0, 2, 2)]
   \<and> tetris_pack Boxes [square, square] 3 1 0 1 = Diverges"
proof -
  have first: "tetris_run Boxes [square] 3 1 0 1 = Returns
    \<lparr>result = [(0, 0, 2, 2)],
     simplified_result = [(0, 0, 2, 2), (0, - (1 / 1000000), 2, - (1 / 1000000))],
     simplified_result_prepared = [(0, 0, 2, 2), (0, - (1 / 1000000), 2, - (1 / 1000000))],
     starting_yoffs = [0, 0, 0], nb_placed = 1, global_maxy = 2,
     placed = [\<lparr>pos_x = 1, pos_yoff = 0, pos_maxy = 2, pos_geom = [(0, 0, 2, 2)]\<rparr>]\<rparr>"
    by (simp add: run_simps)
  have stuck: "probe Boxes [(0, 0, 2, 2), (0, - (1 / 1000000), 2, - (1 / 1000000))]
                 [(0, 0, 2, 2)] 0 0 [(0, 0, 2, 2)] = None"
    by (rule probe_stuck) (simp_all add: run_simps)
  have "tetris_run Boxes ([square] @ [square]) 3 1 0 1 = Diverges"
    unfolding tetris_run_append first and_then_Returns
    using stuck
    by (simp add: place_piece_def candidates_def candidate_def columns_def py_range_def
          getitem_def py_slot_def orientation_angle_def Boxes_def boxes_rotate_def
          boxes_bounds_def box_translate_def square_def upto_rec1)
  with first show ?thesis by (simp add: tetris_pack_def)
qed

text \<open>
  C4, amended. The vertical search has no maximum height and no iteration cap, and
  nothing like \<^verbatim>\<open>PackingOverflow\<close> exists. The search tests the geometry it starts
  with, then \<^verbatim>\<open>geom_xshifted\<close> lifted by \<open>yoff + stepy\<close>, \<open>yoff + 2 * stepy\<close> and so
  on. It ends if and only if one of these geometries does not intersect the prepared
  simplified result, and then it stops at the first of them; otherwise it runs for ever.
\<close>

theorem vertical_search_ends_iff_some_height_is_free:
  "((\<exists>r. probe G prepared gx stepy yoff g = Some r)
      \<longleftrightarrow> (\<exists>k. \<not> sh_intersects G prepared (probed G gx stepy yoff g k)))
   \<and> (\<forall>k. \<not> sh_intersects G prepared (probed G gx stepy yoff g k)
          \<and> (\<forall>j<k. sh_intersects G prepared (probed G gx stepy yoff g j))
        \<longrightarrow> probe G prepared gx stepy yoff g
              = Some (yoff + of_nat k * stepy, probed G gx stepy yoff g k))"
proof (intro conjI allI impI)
  show "(\<exists>r. probe G prepared gx stepy yoff g = Some r)
      \<longleftrightarrow> (\<exists>k. \<not> sh_intersects G prepared (probed G gx stepy yoff g k))"
    using probe_None_iff [of G prepared gx stepy yoff g] by auto
next
  fix k
  assume "\<not> sh_intersects G prepared (probed G gx stepy yoff g k)
          \<and> (\<forall>j<k. sh_intersects G prepared (probed G gx stepy yoff g j))"
  then show "probe G prepared gx stepy yoff g
              = Some (yoff + of_nat k * stepy, probed G gx stepy yoff g k)"
    by (intro probe_first_free) simp_all
qed

theorem vertical_search_ends_iff_some_height_is_free_witness:
  "\<not> sh_intersects Boxes [(0, 0, 2, 2)] (probed Boxes [(0, 0, 2, 2)] 1 0 [(0, 0, 2, 2)] 3)
   \<and> sh_intersects Boxes [(0, 0, 2, 2)] (probed Boxes [(0, 0, 2, 2)] 1 0 [(0, 0, 2, 2)] 0)
   \<and> sh_intersects Boxes [(0, 0, 2, 2)] (probed Boxes [(0, 0, 2, 2)] 1 0 [(0, 0, 2, 2)] 1)
   \<and> sh_intersects Boxes [(0, 0, 2, 2)] (probed Boxes [(0, 0, 2, 2)] 1 0 [(0, 0, 2, 2)] 2)
   \<and> probe Boxes [(0, 0, 2, 2)] [(0, 0, 2, 2)] 1 0 [(0, 0, 2, 2)] = Some (3, [(0, 3, 2, 5)])"
proof -
  let ?at = "probed Boxes [(0, 0, 2, 2)] 1 0 [(0, 0, 2, 2)]"
  have free: "\<not> sh_intersects Boxes [(0, 0, 2, 2)] (?at 3)"
    by (simp add: probed_def run_simps)
  have hit: "sh_intersects Boxes [(0, 0, 2, 2)] (?at 0)"
    "sh_intersects Boxes [(0, 0, 2, 2)] (?at 1)" "sh_intersects Boxes [(0, 0, 2, 2)] (?at 2)"
    by (simp_all add: probed_def run_simps)
  have below: "\<forall>j<3. sh_intersects Boxes [(0, 0, 2, 2)] (?at j)"
  proof (intro allI impI)
    fix j :: nat assume "j < 3"
    then have "j = 0 \<or> j = 1 \<or> j = 2" by (rule below_3)
    with hit show "sh_intersects Boxes [(0, 0, 2, 2)] (?at j)" by blast
  qed
  from vertical_search_ends_iff_some_height_is_free
         [of Boxes "[(0, 0, 2, 2)]" "[(0, 0, 2, 2)]" 1 0 "[(0, 0, 2, 2)]",
          THEN conjunct2, rule_format, of 3] free below
  have "probe Boxes [(0, 0, 2, 2)] [(0, 0, 2, 2)] 1 0 [(0, 0, 2, 2)] = Some (0 + of_nat 3 * 1, ?at 3)"
    by blast
  then have "probe Boxes [(0, 0, 2, 2)] [(0, 0, 2, 2)] 1 0 [(0, 0, 2, 2)] = Some (3, [(0, 3, 2, 5)])"
    by (simp add: probed_def Boxes_def box_translate_def del: probe.simps)
  with free hit show ?thesis by blast
qed

text \<open>
  C5. The water levels after a commit. As stated the claim fails: the second of two
  squares on a sheet of width 3 is committed at column 1 with resting height 3 and top
  edge 5; its bounding box spans the columns 0 and 1, whose water levels are 3
  afterwards, not 5.
\<close>

theorem commit_raises_to_top_counterexample:
  "placements (tetris_run Boxes [square, square] 3 1 1 1) =
     Returns [\<lparr>pos_x = 1, pos_yoff = 0, pos_maxy = 2, pos_geom = [(0, 0, 2, 2)]\<rparr>,
              \<lparr>pos_x = 1, pos_yoff = 3, pos_maxy = 5, pos_geom = [(0, 3, 2, 5)]\<rparr>]
   \<and> water_levels (tetris_run Boxes [square] 3 1 1 1) = Returns [0, 0, 0]
   \<and> water_levels (tetris_run Boxes [square, square] 3 1 1 1) = Returns [3, 3, 0]"
  by (simp add: run_simps)

text \<open>
  C5, amended. The commit first stores the resting height \<^verbatim>\<open>yoff\<close> of the chosen
  candidate as the water level of the chosen column, and then raises the water level of
  every column of \<^verbatim>\<open>range(ceil(minx/stepx), floor(maxx/stepx))\<close> to at least
  \<^verbatim>\<open>miny\<close>, where \<open>(minx, miny, maxx, maxy)\<close> are the bounds of the committed
  geometry: to its bottom edge, not to its top edge. All other levels are unchanged.
\<close>

theorem commit_water_levels:
  assumes com: "commit G stepx st best = Returns st'"
    and b: "sh_bounds G (pos_geom best) = (minx, miny, maxx, maxy)"
  shows "\<exists>k. py_slot (starting_yoffs st) (pos_x best) = Some k
           \<and> length (starting_yoffs st') = length (starting_yoffs st)
           \<and> (\<forall>c<length (starting_yoffs st).
                 starting_yoffs st' ! c =
                   (let v = (if c = k then pos_yoff best else starting_yoffs st ! c) in
                    if \<exists>x\<in>set (py_range \<lceil>minx / stepx\<rceil> \<lfloor>maxx / stepx\<rfloor>).
                         py_slot (starting_yoffs st) x = Some c
                    then max v miny else v))"
proof -
  from commit_Returns [OF com b] obtain k yoffs2 where
    k: "py_slot (starting_yoffs st) (pos_x best) = Some k"
    and r: "raise_levels ((starting_yoffs st)[k := pos_yoff best])
              (py_range \<lceil>minx / stepx\<rceil> \<lfloor>maxx / stepx\<rfloor>) miny = Returns yoffs2"
    and y: "starting_yoffs st' = yoffs2"
    by auto
  let ?ys = "(starting_yoffs st)[k := pos_yoff best]"
  have slot: "py_slot ?ys x = py_slot (starting_yoffs st) x" for x
    by (rule py_slot_same_length) simp
  from raise_levels_Returns [OF r] have len: "length yoffs2 = length (starting_yoffs st)"
    and lev: "\<forall>c<length (starting_yoffs st). yoffs2 ! c =
        (if \<exists>x\<in>set (py_range \<lceil>minx / stepx\<rceil> \<lfloor>maxx / stepx\<rfloor>).
              py_slot (starting_yoffs st) x = Some c
         then max (?ys ! c) miny else ?ys ! c)"
    by (simp_all add: slot)
  have "?ys ! c = (if c = k then pos_yoff best else starting_yoffs st ! c)"
    if "c < length (starting_yoffs st)" for c
    using that by (simp add: nth_list_update)
  with lev have "\<forall>c<length (starting_yoffs st). starting_yoffs st' ! c =
                   (let v = (if c = k then pos_yoff best else starting_yoffs st ! c) in
                    if \<exists>x\<in>set (py_range \<lceil>minx / stepx\<rceil> \<lfloor>maxx / stepx\<rfloor>).
                         py_slot (starting_yoffs st) x = Some c
                    then max v miny else v)"
    by (simp add: y Let_def)
  with k len y show ?thesis by blast
qed

theorem commit_water_levels_witness:
  "sh_bounds Boxes [(0, 3, 2, 5)] = (0, 3, 2, 5)
   \<and> water_levels (commit Boxes 1
        \<lparr>result = [(0, 0, 2, 2)],
         simplified_result = [(0, 0, 2, 2), (0, - (1 / 1000000), 2, - (1 / 1000000))],
         simplified_result_prepared = [(0, 0, 2, 2), (0, - (1 / 1000000), 2, - (1 / 1000000))],
         starting_yoffs = [0, 0, 0], nb_placed = 1, global_maxy = 2,
         placed = [\<lparr>pos_x = 1, pos_yoff = 0, pos_maxy = 2, pos_geom = [(0, 0, 2, 2)]\<rparr>]\<rparr>
        \<lparr>pos_x = 1, pos_yoff = 3, pos_maxy = 5, pos_geom = [(0, 3, 2, 5)]\<rparr>) = Returns [3, 3, 0]
   \<and> py_slot [0, 0, 0 :: rat] 1 = Some 1
   \<and> [3, 3, 0 :: rat] ! 0 = max 0 3 \<and> [3, 3, 0 :: rat] ! 1 = max 3 3
   \<and> py_range \<lceil>(0::rat) / 1\<rceil> \<lfloor>(2::rat) / 1\<rfloor> = [0, 1]
   \<and> max (0::rat) 3 = 3 \<and> max (3::rat) 3 = 3"
proof -
  let ?st = "\<lparr>result = [(0, 0, 2, 2)],
         simplified_result = [(0, 0, 2, 2), (0, - (1 / 1000000), 2, - (1 / 1000000))],
         simplified_result_prepared = [(0, 0, 2, 2), (0, - (1 / 1000000), 2, - (1 / 1000000))],
         starting_yoffs = [0, 0, 0], nb_placed = 1, global_maxy = 2,
         placed = [\<lparr>pos_x = 1, pos_yoff = 0, pos_maxy = 2, pos_geom = [(0, 0, 2, 2)]\<rparr>]\<rparr>"
  let ?best = "\<lparr>pos_x = 1, pos_yoff = 3, pos_maxy = 5, pos_geom = [(0::rat, 3::rat, 2::rat, 5::rat)]\<rparr>"
  let ?st' = "\<lparr>result = [(0, 0, 2, 2), (0, 3, 2, 5)],
     simplified_result =
       [(0, 0, 2, 2), (0, - (1 / 1000000), 2, - (1 / 1000000)),
        (0, 3, 2, 5), (0, - (1 / 1000000), 2, 2999999 / 1000000)],
     simplified_result_prepared =
       [(0, 0, 2, 2), (0, - (1 / 1000000), 2, - (1 / 1000000)),
        (0, 3, 2, 5), (0, - (1 / 1000000), 2, 2999999 / 1000000)],
     starting_yoffs = [3, 3, 0], nb_placed = 2, global_maxy = 5,
     placed =
       [\<lparr>pos_x = 1, pos_yoff = 0, pos_maxy = 2, pos_geom = [(0, 0, 2, 2)]\<rparr>,
        \<lparr>pos_x = 1, pos_yoff = 3, pos_maxy = 5, pos_geom = [(0, 3, 2, 5)]\<rparr>]\<rparr>"
  have com: "commit Boxes 1 ?st ?best = Returns ?st'"
    by (simp add: run_simps)
  have b: "sh_bounds Boxes (pos_geom ?best) = (0, 3, 2, 5)"
    by (simp add: run_simps)
  from commit_water_levels [OF com b]
  have "[3, 3, 0 :: rat] ! 0 = max 0 3 \<and> [3, 3, 0 :: rat] ! 1 = max 3 3"
    by (auto simp: py_slot_def)
  moreover have "water_levels (commit Boxes 1 ?st ?best) = Returns [3, 3, 0]"
    by (simp only: com water_levels_def and_then_Returns pack_state.simps)
  moreover have "py_range \<lceil>(0::rat) / 1\<rceil> \<lfloor>(2::rat) / 1\<rfloor> = [0, 1]"
    by (simp add: run_simps)
  moreover have "py_slot [0, 0, 0 :: rat] 1 = Some 1"
    by (simp add: py_slot_def)
  ultimately show ?thesis using b by simp
qed

text \<open>
  C6. No tolerance in the intersection test. As stated the claim fails on the geometry
  of boxes, whose \<^verbatim>\<open>intersects\<close> is true for geometries that share a point, as
  shapely's is: a square that rests on another one (contact along an edge, common area
  zero) or meets it in a corner is reported as colliding. So the second of two squares
  on a sheet of width 3 is not committed at height 2, where it would touch the first,
  but one step higher, at 3; and on a sheet of width 10 it is not committed at column 3,
  where it would touch the first along the line \<open>x = 2\<close>, but at column 4.
\<close>

theorem touching_is_colliding_counterexample:
  "boxes_common_area [(0, 0, 2, 2)] [(0, 2, 2, 4)] = 0
   \<and> sh_intersects Boxes [(0, 0, 2, 2)] [(0, 2, 2, 4)]
   \<and> boxes_common_area [(0, 0, 2, 2)] [(2, 2, 4, 4)] = 0
   \<and> sh_intersects Boxes [(0, 0, 2, 2)] [(2, 2, 4, 4)]
   \<and> placements (tetris_run Boxes [square, square] 3 1 1 1) =
       Returns [\<lparr>pos_x = 1, pos_yoff = 0, pos_maxy = 2, pos_geom = [(0, 0, 2, 2)]\<rparr>,
                \<lparr>pos_x = 1, pos_yoff = 3, pos_maxy = 5, pos_geom = [(0, 3, 2, 5)]\<rparr>]
   \<and> placements (tetris_run Boxes [square, square] 10 1 1 1) =
       Returns [\<lparr>pos_x = 1, pos_yoff = 0, pos_maxy = 2, pos_geom = [(0, 0, 2, 2)]\<rparr>,
                \<lparr>pos_x = 4, pos_yoff = 0, pos_maxy = 2, pos_geom = [(3, 0, 5, 2)]\<rparr>]"
  by (simp add: run_simps boxes_common_area_def box_common_area_def)

text \<open>
  C6, amended. The vertical search uses the library's \<^verbatim>\<open>intersects\<close> as it is, on
  the prepared simplified result and the candidate geometry: a candidate is recorded at
  the probed position \<open>k\<close> exactly when \<^verbatim>\<open>intersects\<close> is false there and true at
  every position probed before. There is no tolerance and no parameter for one, so that
  with an \<^verbatim>\<open>intersects\<close> that is true for geometries that share a point a candidate
  that only touches placed material is lifted further.
\<close>

theorem candidate_accepted_where_intersects_is_false:
  assumes b: "sh_bounds G geom_rotated = (minx, miny, maxx, maxy)"
    and w: "getitem (starting_yoffs st) x = Returns w"
  shows "candidate G st stepx stepy geom_rotated x = Returns p \<longleftrightarrow>
         (\<exists>k. \<not> sh_intersects G (simplified_result_prepared st)
                  (probed G (sh_translate G geom_rotated (of_int x * stepx) (- miny)) stepy w
                     (sh_translate G geom_rotated (of_int x * stepx) (- miny)) k)
            \<and> (\<forall>j<k. sh_intersects G (simplified_result_prepared st)
                  (probed G (sh_translate G geom_rotated (of_int x * stepx) (- miny)) stepy w
                     (sh_translate G geom_rotated (of_int x * stepx) (- miny)) j))
            \<and> p = \<lparr>pos_x = x, pos_yoff = w + of_nat k * stepy,
                    pos_maxy = w + of_nat k * stepy + maxy - miny,
                    pos_geom = probed G (sh_translate G geom_rotated (of_int x * stepx) (- miny))
                                 stepy w
                                 (sh_translate G geom_rotated (of_int x * stepx) (- miny)) k\<rparr>)"
  (is "?lhs \<longleftrightarrow> ?rhs")
proof
  let ?gx = "sh_translate G geom_rotated (of_int x * stepx) (- miny)"
  assume ?lhs
  then obtain r where r: "probe G (simplified_result_prepared st) ?gx stepy w ?gx = Some r"
    and p: "p = \<lparr>pos_x = x, pos_yoff = fst r, pos_maxy = fst r + maxy - miny, pos_geom = snd r\<rparr>"
    by (auto simp: candidate_unfold [OF b w] split: option.splits)
  from probe_returned [OF r] p show ?rhs by auto
next
  let ?gx = "sh_translate G geom_rotated (of_int x * stepx) (- miny)"
  assume ?rhs
  then obtain k where free: "\<not> sh_intersects G (simplified_result_prepared st)
                                (probed G ?gx stepy w ?gx k)"
    and below: "\<And>j. j < k \<Longrightarrow> sh_intersects G (simplified_result_prepared st)
                                (probed G ?gx stepy w ?gx j)"
    and p: "p = \<lparr>pos_x = x, pos_yoff = w + of_nat k * stepy,
                  pos_maxy = w + of_nat k * stepy + maxy - miny,
                  pos_geom = probed G ?gx stepy w ?gx k\<rparr>"
    by blast
  from probe_first_free [OF free below] p show ?lhs
    by (simp add: candidate_unfold [OF b w])
qed

theorem candidate_accepted_where_intersects_is_false_witness:
  "sh_bounds Boxes square = (-1, -1, 1, 1)
   \<and> getitem [0, 0, 0 :: rat] 1 = Returns 0
   \<and> sh_intersects Boxes [(0, 0, 2, 2), (0, - (1 / 1000000), 2, - (1 / 1000000))] [(0, 2, 2, 4)]
   \<and> candidate Boxes
        \<lparr>result = [(0, 0, 2, 2)],
         simplified_result = [(0, 0, 2, 2), (0, - (1 / 1000000), 2, - (1 / 1000000))],
         simplified_result_prepared = [(0, 0, 2, 2), (0, - (1 / 1000000), 2, - (1 / 1000000))],
         starting_yoffs = [0, 0, 0], nb_placed = 1, global_maxy = 2,
         placed = [\<lparr>pos_x = 1, pos_yoff = 0, pos_maxy = 2, pos_geom = [(0, 0, 2, 2)]\<rparr>]\<rparr>
        1 1 square 1
       = Returns \<lparr>pos_x = 1, pos_yoff = 3, pos_maxy = 5, pos_geom = [(0, 3, 2, 5)]\<rparr>"
proof -
  let ?st = "\<lparr>result = [(0, 0, 2, 2)],
         simplified_result = [(0, 0, 2, 2), (0, - (1 / 1000000), 2, - (1 / 1000000))],
         simplified_result_prepared = [(0, 0, 2, 2), (0, - (1 / 1000000), 2, - (1 / 1000000))],
         starting_yoffs = [0, 0, 0], nb_placed = 1, global_maxy = 2,
         placed = [\<lparr>pos_x = 1, pos_yoff = 0, pos_maxy = 2, pos_geom = [(0::rat, 0::rat, 2::rat, 2::rat)]\<rparr>]\<rparr>"
  let ?sr = "[(0, 0, 2, 2), (0, - (1 / 1000000), 2, - (1 / 1000000))] :: box list"
  let ?gx = "sh_translate Boxes square (of_int 1 * 1) (- (- 1))"
  let ?at = "probed Boxes ?gx 1 0 ?gx"
  have b: "sh_bounds Boxes square = (-1, -1, 1, 1)"
    by (simp add: run_simps)
  have w: "getitem (starting_yoffs ?st) 1 = Returns 0"
    by (simp add: getitem_def py_slot_def)
  have free: "\<not> sh_intersects Boxes (simplified_result_prepared ?st) (?at 3)"
    by (simp add: probed_def run_simps)
  have hit: "sh_intersects Boxes (simplified_result_prepared ?st) (?at 0)"
    "sh_intersects Boxes (simplified_result_prepared ?st) (?at 1)"
    "sh_intersects Boxes (simplified_result_prepared ?st) (?at 2)"
    by (simp_all add: probed_def run_simps)
  have below: "\<forall>j<3. sh_intersects Boxes (simplified_result_prepared ?st) (?at j)"
  proof (intro allI impI)
    fix j :: nat assume "j < 3"
    then have "j = 0 \<or> j = 1 \<or> j = 2" by (rule below_3)
    with hit show "sh_intersects Boxes (simplified_result_prepared ?st) (?at j)" by blast
  qed
  have touch: "?at 2 = [(0, 2, 2, 4)]"
    by (simp add: probed_def run_simps)
  from free below
  have "candidate Boxes ?st 1 1 square 1 =
          Returns \<lparr>pos_x = 1, pos_yoff = 0 + of_nat 3 * 1, pos_maxy = 0 + of_nat 3 * 1 + 1 - (- 1),
                   pos_geom = ?at 3\<rparr>"
    unfolding candidate_accepted_where_intersects_is_false [OF b w]
    by blast
  moreover have "?at 3 = [(0, 3, 2, 5)]"
    by (simp add: probed_def run_simps)
  ultimately have "candidate Boxes ?st 1 1 square 1 =
          Returns \<lparr>pos_x = 1, pos_yoff = 3, pos_maxy = 5, pos_geom = [(0, 3, 2, 5)]\<rparr>"
    by simp
  moreover from hit(3) touch have "sh_intersects Boxes ?sr [(0, 2, 2, 4)]" by simp
  moreover have "getitem [0, 0, 0 :: rat] 1 = Returns 0" using w by simp
  ultimately show ?thesis using b by blast
qed

text \<open>
  C7. The selection rule. The recorded candidates are the results of the candidate
  searches in the order of the two loops, orientations first and columns within an
  orientation. If there is at least one, the piece is committed at the candidate
  \<open>ps ! k\<close> such that no candidate has a lower top edge, no candidate with the same top
  edge has a smaller column, and every candidate enumerated before it has a higher top
  edge or, for the same top edge, a larger column: it is the first minimum for the key
  \<open>(maxy, x)\<close>.
\<close>

theorem best_position_is_first_minimum:
  assumes ps: "candidates G width stepx stepy n st geom = Returns ps" and ne: "ps \<noteq> []"
  shows "map Returns ps =
           concat (map (\<lambda>i. map (candidate G st stepx stepy (sh_rotate G geom (orientation_angle n i)))
                               (columns G width stepx (sh_rotate G geom (orientation_angle n i))))
                     (py_range 0 n))
       \<and> (\<exists>k<length ps.
             place_piece G width stepx stepy n st geom = commit G stepx st (ps ! k)
           \<and> (\<forall>st'. place_piece G width stepx stepy n st geom = Returns st'
                  \<longrightarrow> placed st' = placed st @ [ps ! k])
           \<and> (\<forall>j<length ps. pos_maxy (ps ! k) < pos_maxy (ps ! j)
                  \<or> (pos_maxy (ps ! k) = pos_maxy (ps ! j) \<and> pos_x (ps ! k) \<le> pos_x (ps ! j)))
           \<and> (\<forall>j<k. pos_maxy (ps ! k) < pos_maxy (ps ! j)
                  \<or> (pos_maxy (ps ! k) = pos_maxy (ps ! j) \<and> pos_x (ps ! k) < pos_x (ps ! j))))"
proof
  from ps show "map Returns ps =
           concat (map (\<lambda>i. map (candidate G st stepx stepy (sh_rotate G geom (orientation_angle n i)))
                               (columns G width stepx (sh_rotate G geom (orientation_angle n i))))
                     (py_range 0 n))"
    using try_orientations_order [of G st width stepx stepy n geom "py_range 0 n" "[]" ps]
    by (simp add: candidates_def)
next
  from py_min_first [OF ne] obtain k where k: "k < length ps"
    and best: "py_min ps = Returns (ps ! k)"
    and least: "\<forall>j<length ps. \<not> key_less (position_key (ps ! j)) (position_key (ps ! k))"
    and first: "\<forall>j<k. key_less (position_key (ps ! k)) (position_key (ps ! j))"
    by blast
  have pp: "place_piece G width stepx stepy n st geom = commit G stepx st (ps ! k)"
    by (simp add: place_piece_def ps best)
  have pl: "placed st' = placed st @ [ps ! k]"
    if "place_piece G width stepx stepy n st geom = Returns st'" for st'
  proof -
    obtain minx miny maxx maxy where
      b: "sh_bounds G (pos_geom (ps ! k)) = (minx, miny, maxx, maxy)"
      by (cases "sh_bounds G (pos_geom (ps ! k))") auto
    from that pp have "commit G stepx st (ps ! k) = Returns st'" by simp
    from commit_Returns [OF this b] show ?thesis by auto
  qed
  have "\<forall>j<length ps. pos_maxy (ps ! k) < pos_maxy (ps ! j)
          \<or> (pos_maxy (ps ! k) = pos_maxy (ps ! j) \<and> pos_x (ps ! k) \<le> pos_x (ps ! j))"
    using least by (auto simp: key_less_def position_key_def)
  moreover have "\<forall>j<k. pos_maxy (ps ! k) < pos_maxy (ps ! j)
          \<or> (pos_maxy (ps ! k) = pos_maxy (ps ! j) \<and> pos_x (ps ! k) < pos_x (ps ! j))"
    using first by (auto simp: key_less_def position_key_def)
  ultimately show "\<exists>k<length ps.
             place_piece G width stepx stepy n st geom = commit G stepx st (ps ! k)
           \<and> (\<forall>st'. place_piece G width stepx stepy n st geom = Returns st'
                  \<longrightarrow> placed st' = placed st @ [ps ! k])
           \<and> (\<forall>j<length ps. pos_maxy (ps ! k) < pos_maxy (ps ! j)
                  \<or> (pos_maxy (ps ! k) = pos_maxy (ps ! j) \<and> pos_x (ps ! k) \<le> pos_x (ps ! j)))
           \<and> (\<forall>j<k. pos_maxy (ps ! k) < pos_maxy (ps ! j)
                  \<or> (pos_maxy (ps ! k) = pos_maxy (ps ! j) \<and> pos_x (ps ! k) < pos_x (ps ! j)))"
    using k pp pl by blast
qed

text \<open>
  An instance: a square on an empty sheet of width 4 with two orientations (a half turn
  leaves the square as it is). The four candidates have the same top edge; the columns
  1 and 2 occur twice each; the first candidate is committed.
\<close>

theorem best_position_is_first_minimum_witness:
  "candidates Boxes 4 1 1 2 (initial_state Boxes 4) square =
     Returns [\<lparr>pos_x = 1, pos_yoff = 0, pos_maxy = 2, pos_geom = [(0, 0, 2, 2)]\<rparr>,
              \<lparr>pos_x = 2, pos_yoff = 0, pos_maxy = 2, pos_geom = [(1, 0, 3, 2)]\<rparr>,
              \<lparr>pos_x = 1, pos_yoff = 0, pos_maxy = 2, pos_geom = [(0, 0, 2, 2)]\<rparr>,
              \<lparr>pos_x = 2, pos_yoff = 0, pos_maxy = 2, pos_geom = [(1, 0, 3, 2)]\<rparr>]
   \<and> placements (place_piece Boxes 4 1 1 2 (initial_state Boxes 4) square) =
       Returns [\<lparr>pos_x = 1, pos_yoff = 0, pos_maxy = 2, pos_geom = [(0, 0, 2, 2)]\<rparr>]
   \<and> (\<exists>k<4. place_piece Boxes 4 1 1 2 (initial_state Boxes 4) square =
               commit Boxes 1 (initial_state Boxes 4)
                 ([\<lparr>pos_x = 1, pos_yoff = 0, pos_maxy = 2, pos_geom = [(0, 0, 2, 2)]\<rparr>,
                   \<lparr>pos_x = 2, pos_yoff = 0, pos_maxy = 2, pos_geom = [(1, 0, 3, 2)]\<rparr>,
                   \<lparr>pos_x = 1, pos_yoff = 0, pos_maxy = 2, pos_geom = [(0, 0, 2, 2)]\<rparr>,
                   \<lparr>pos_x = 2, pos_yoff = 0, pos_maxy = 2, pos_geom = [(1, 0, 3, 2)]\<rparr>] ! k))"
proof -
  let ?ps = "[\<lparr>pos_x = 1, pos_yoff = 0, pos_maxy = 2, pos_geom = [(0::rat, 0::rat, 2::rat, 2::rat)]\<rparr>,
              \<lparr>pos_x = 2, pos_yoff = 0, pos_maxy = 2, pos_geom = [(1, 0, 3, 2)]\<rparr>,
              \<lparr>pos_x = 1, pos_yoff = 0, pos_maxy = 2, pos_geom = [(0, 0, 2, 2)]\<rparr>,
              \<lparr>pos_x = 2, pos_yoff = 0, pos_maxy = 2, pos_geom = [(1, 0, 3, 2)]\<rparr>]"
  have ps: "candidates Boxes 4 1 1 2 (initial_state Boxes 4) square = Returns ?ps"
    by (simp add: run_simps)
  have ne: "?ps \<noteq> []" by simp
  have pl: "placements (place_piece Boxes 4 1 1 2 (initial_state Boxes 4) square) =
       Returns [\<lparr>pos_x = 1, pos_yoff = 0, pos_maxy = 2, pos_geom = [(0, 0, 2, 2)]\<rparr>]"
    by (simp add: run_simps)
  from best_position_is_first_minimum [OF ps ne, THEN conjunct2]
  obtain k where "k < length ?ps"
    and "place_piece Boxes 4 1 1 2 (initial_state Boxes 4) square =
           commit Boxes 1 (initial_state Boxes 4) (?ps ! k)"
    by blast
  then have "\<exists>k<4. place_piece Boxes 4 1 1 2 (initial_state Boxes 4) square =
               commit Boxes 1 (initial_state Boxes 4) (?ps ! k)"
    by (intro exI [of _ k]) simp
  with ps pl show ?thesis by blast
qed

text \<open>
  C8. Monotonic water levels. As stated, for every run, the claim fails: the function
  accepts a negative vertical step, and then the search moves a colliding piece down.
  With \<open>stepy = -1\<close> the second of two squares on a sheet of width 3 leaves the search
  at \<^verbatim>\<open>yoff\<close> \<open>= -3\<close>, and line 125 stores \<open>-3\<close> over the water level 0 of column 1.
\<close>

theorem water_levels_drop_for_negative_step_counterexample:
  "water_levels (tetris_run Boxes [square] 3 1 (- 1) 1) = Returns [0, 0, 0]
   \<and> placements (tetris_run Boxes [square, square] 3 1 (- 1) 1) =
       Returns [\<lparr>pos_x = 1, pos_yoff = 0, pos_maxy = 2, pos_geom = [(0, 0, 2, 2)]\<rparr>,
                \<lparr>pos_x = 1, pos_yoff = - 3, pos_maxy = - 1, pos_geom = [(0, - 3, 2, - 1)]\<rparr>]
   \<and> water_levels (tetris_run Boxes [square, square] 3 1 (- 1) 1) = Returns [0, - 3, 0]"
  by (simp add: run_simps)

text \<open>
  C8, amended. Monotonic water levels for a vertical step that is not negative. The
  water levels start as zeros, one for each column. Whenever a run with \<open>0 \<le> stepy\<close>
  returns, the levels after any number of its commits (the run on the first pieces
  \<open>gs1\<close>) are not negative and not above the levels at the end of the run, column by
  column. Both updates of a commit keep a level or raise it: the chosen column gets the
  \<^verbatim>\<open>yoff\<close> that the search has only increased from that column's level, and the
  columns under the bounding box get the maximum of their level and \<^verbatim>\<open>miny\<close>.
\<close>

theorem water_levels_never_decrease:
  assumes step: "0 \<le> stepy"
    and run: "tetris_run G (gs1 @ gs2) width stepx stepy n = Returns st2"
  shows "starting_yoffs (initial_state G (py_int (width / stepx))) =
           replicate (nat (py_int (width / stepx))) 0
       \<and> (\<exists>st1. tetris_run G gs1 width stepx stepy n = Returns st1
             \<and> length (starting_yoffs st1) = nat (py_int (width / stepx))
             \<and> length (starting_yoffs st2) = nat (py_int (width / stepx))
             \<and> (\<forall>c<nat (py_int (width / stepx)).
                   0 \<le> starting_yoffs st1 ! c \<and> starting_yoffs st1 ! c \<le> starting_yoffs st2 ! c))"
proof
  show "starting_yoffs (initial_state G (py_int (width / stepx))) =
           replicate (nat (py_int (width / stepx))) 0"
    by (simp add: initial_state_def)
next
  let ?m = "nat (py_int (width / stepx))"
  let ?init = "initial_state G (py_int (width / stepx))"
  from run obtain st1 where
    run1: "tetris_run G gs1 width stepx stepy n = Returns st1"
    and rest: "place_all G width stepx stepy n st1 gs2 = Returns st2"
    by (auto simp: tetris_run_append and_then_eq_Returns)
  from tetris_run_Returns [OF run1]
  have "place_all G width stepx stepy n ?init gs1 = Returns st1" by simp
  from place_all_monotone [OF step this]
  have a: "list_all2 (\<le>) (replicate ?m 0) (starting_yoffs st1)"
    by (simp add: initial_state_def)
  from place_all_monotone [OF step rest]
  have b: "list_all2 (\<le>) (starting_yoffs st1) (starting_yoffs st2)" .
  from a have len1: "length (starting_yoffs st1) = ?m"
    by (auto dest: list_all2_lengthD)
  with b have len2: "length (starting_yoffs st2) = ?m"
    by (auto dest: list_all2_lengthD)
  have "\<forall>c<?m. 0 \<le> starting_yoffs st1 ! c \<and> starting_yoffs st1 ! c \<le> starting_yoffs st2 ! c"
  proof (intro allI impI)
    fix c assume c: "c < ?m"
    from a have "\<forall>i<?m. 0 \<le> starting_yoffs st1 ! i"
      by (auto simp: list_all2_conv_all_nth)
    with c have "0 \<le> starting_yoffs st1 ! c" by blast
    moreover from b c len1 have "starting_yoffs st1 ! c \<le> starting_yoffs st2 ! c"
      by (simp add: list_all2_conv_all_nth)
    ultimately show "0 \<le> starting_yoffs st1 ! c \<and> starting_yoffs st1 ! c \<le> starting_yoffs st2 ! c" ..
  qed
  with run1 len1 len2 show "\<exists>st1. tetris_run G gs1 width stepx stepy n = Returns st1
             \<and> length (starting_yoffs st1) = ?m
             \<and> length (starting_yoffs st2) = ?m
             \<and> (\<forall>c<?m. 0 \<le> starting_yoffs st1 ! c \<and> starting_yoffs st1 ! c \<le> starting_yoffs st2 ! c)"
    by blast
qed

theorem water_levels_never_decrease_witness:
  "(0::rat) \<le> 1
   \<and> water_levels (tetris_run Boxes [] 3 1 1 1) = Returns [0, 0, 0]
   \<and> water_levels (tetris_run Boxes [square] 3 1 1 1) = Returns [0, 0, 0]
   \<and> water_levels (tetris_run Boxes ([square] @ [square]) 3 1 1 1) = Returns [3, 3, 0]
   \<and> (\<exists>st1. tetris_run Boxes [square] 3 1 1 1 = Returns st1
         \<and> 0 \<le> starting_yoffs st1 ! 0 \<and> starting_yoffs st1 ! 0 \<le> [3, 3, 0 :: rat] ! 0)"
proof -
  let ?st2 = "\<lparr>result = [(0, 0, 2, 2), (0, 3, 2, 5)],
     simplified_result =
       [(0, 0, 2, 2), (0, - (1 / 1000000), 2, - (1 / 1000000)),
        (0, 3, 2, 5), (0, - (1 / 1000000), 2, 2999999 / 1000000)],
     simplified_result_prepared =
       [(0, 0, 2, 2), (0, - (1 / 1000000), 2, - (1 / 1000000)),
        (0, 3, 2, 5), (0, - (1 / 1000000), 2, 2999999 / 1000000)],
     starting_yoffs = [3, 3, 0], nb_placed = 2, global_maxy = 5,
     placed =
       [\<lparr>pos_x = 1, pos_yoff = 0, pos_maxy = 2, pos_geom = [(0::rat, 0::rat, 2::rat, 2::rat)]\<rparr>,
        \<lparr>pos_x = 1, pos_yoff = 3, pos_maxy = 5, pos_geom = [(0, 3, 2, 5)]\<rparr>]\<rparr>"
  have step: "(0::rat) \<le> 1" by simp
  have run: "tetris_run Boxes ([square] @ [square]) 3 1 1 1 = Returns ?st2"
    by (simp add: run_simps)
  have m: "nat (py_int (3 / 1)) = 3"
    by (simp add: py_int_def)
  from water_levels_never_decrease [OF step run, THEN conjunct2] obtain st1 where
    r1: "tetris_run Boxes [square] 3 1 1 1 = Returns st1"
    and lv: "\<forall>c<nat (py_int (3 / 1)).
           0 \<le> starting_yoffs st1 ! c \<and> starting_yoffs st1 ! c \<le> starting_yoffs ?st2 ! c"
    by blast
  from lv [rule_format, of 0]
  have "0 \<le> starting_yoffs st1 ! 0 \<and> starting_yoffs st1 ! 0 \<le> [3, 3, 0 :: rat] ! 0"
    by (simp add: py_int_def)
  with r1 have "\<exists>st1. tetris_run Boxes [square] 3 1 1 1 = Returns st1
         \<and> 0 \<le> starting_yoffs st1 ! 0 \<and> starting_yoffs st1 ! 0 \<le> [3, 3, 0 :: rat] ! 0"
    by blast
  moreover have "water_levels (tetris_run Boxes [] 3 1 1 1) = Returns [0, 0, 0]"
    "water_levels (tetris_run Boxes [square] 3 1 1 1) = Returns [0, 0, 0]"
    by (simp_all add: run_simps)
  moreover have "water_levels (tetris_run Boxes ([square] @ [square]) 3 1 1 1) = Returns [3, 3, 0]"
    by (simp only: run water_levels_def and_then_Returns pack_state.simps)
  ultimately show ?thesis using step by blast
qed

text \<open>
  C10. Where the vertical search starts. The first geometry tested for a candidate is
  \<^verbatim>\<open>geom_xshifted\<close>, whose bottom edge is at 0 (the library shifts the bounds of the
  piece with the piece), while \<^verbatim>\<open>yoff\<close> starts at the water level \<open>w\<close> of the
  column. If that first test finds a collision, the search goes on at height
  \<open>w + stepy\<close>. If it finds none, the candidate is recorded with \<^verbatim>\<open>yoff\<close> \<open>= w\<close> and
  \<^verbatim>\<open>maxy\<close> \<open>= w + maxy - miny\<close>, and with the geometry whose bottom edge is at 0 and
  whose top edge is at \<open>maxy - miny\<close>: for a positive \<open>w\<close> the recorded resting height
  and top edge are not the ones of the recorded geometry.
\<close>

theorem first_test_is_at_height_zero:
  assumes b: "sh_bounds G geom_rotated = (minx, miny, maxx, maxy)"
    and w: "getitem (starting_yoffs st) x = Returns w"
    and shifted: "sh_bounds G (sh_translate G geom_rotated (of_int x * stepx) (- miny)) =
                    (minx + of_int x * stepx, miny + (- miny), maxx + of_int x * stepx, maxy + (- miny))"
  shows "(sh_intersects G (simplified_result_prepared st)
            (sh_translate G geom_rotated (of_int x * stepx) (- miny)) \<longrightarrow>
          candidate G st stepx stepy geom_rotated x =
            (case probe G (simplified_result_prepared st)
                    (sh_translate G geom_rotated (of_int x * stepx) (- miny)) stepy (w + stepy)
                    (sh_translate G (sh_translate G geom_rotated (of_int x * stepx) (- miny))
                       0 (w + stepy)) of
               None \<Rightarrow> Diverges
             | Some (yoff', geom_yshifted) \<Rightarrow>
                 Returns \<lparr>pos_x = x, pos_yoff = yoff', pos_maxy = yoff' + maxy - miny,
                          pos_geom = geom_yshifted\<rparr>))
       \<and> (\<not> sh_intersects G (simplified_result_prepared st)
              (sh_translate G geom_rotated (of_int x * stepx) (- miny)) \<longrightarrow>
          (\<exists>p. candidate G st stepx stepy geom_rotated x = Returns p
             \<and> p = \<lparr>pos_x = x, pos_yoff = w, pos_maxy = w + maxy - miny,
                     pos_geom = sh_translate G geom_rotated (of_int x * stepx) (- miny)\<rparr>
             \<and> sh_bounds G (pos_geom p) =
                 (minx + of_int x * stepx, 0, maxx + of_int x * stepx, maxy - miny)
             \<and> (0 < w \<longrightarrow> pos_yoff p \<noteq> 0 \<and> pos_maxy p \<noteq> maxy - miny)))"
proof (intro conjI impI)
  let ?gx = "sh_translate G geom_rotated (of_int x * stepx) (- miny)"
  assume hit: "sh_intersects G (simplified_result_prepared st) ?gx"
  then have "probe G (simplified_result_prepared st) ?gx stepy w ?gx =
             probe G (simplified_result_prepared st) ?gx stepy (w + stepy)
               (sh_translate G ?gx 0 (w + stepy))"
    by (simp add: probe.simps [of G "simplified_result_prepared st" ?gx stepy w ?gx])
  then show "candidate G st stepx stepy geom_rotated x =
            (case probe G (simplified_result_prepared st) ?gx stepy (w + stepy)
                    (sh_translate G ?gx 0 (w + stepy)) of
               None \<Rightarrow> Diverges
             | Some (yoff', geom_yshifted) \<Rightarrow>
                 Returns \<lparr>pos_x = x, pos_yoff = yoff', pos_maxy = yoff' + maxy - miny,
                          pos_geom = geom_yshifted\<rparr>)"
    by (simp add: candidate_unfold [OF b w])
next
  let ?gx = "sh_translate G geom_rotated (of_int x * stepx) (- miny)"
  let ?p = "\<lparr>pos_x = x, pos_yoff = w, pos_maxy = w + maxy - miny, pos_geom = ?gx\<rparr>"
  assume free: "\<not> sh_intersects G (simplified_result_prepared st) ?gx"
  then have "probe G (simplified_result_prepared st) ?gx stepy w ?gx = Some (w, ?gx)"
    by (simp add: probe.simps [of G "simplified_result_prepared st" ?gx stepy w ?gx])
  then have "candidate G st stepx stepy geom_rotated x = Returns ?p"
    by (simp add: candidate_unfold [OF b w])
  moreover from shifted have "sh_bounds G (pos_geom ?p) =
      (minx + of_int x * stepx, 0, maxx + of_int x * stepx, maxy - miny)"
    by simp
  moreover have "0 < w \<longrightarrow> pos_yoff ?p \<noteq> 0 \<and> pos_maxy ?p \<noteq> maxy - miny"
    by simp
  ultimately show "\<exists>p. candidate G st stepx stepy geom_rotated x = Returns p
             \<and> p = ?p
             \<and> sh_bounds G (pos_geom p) =
                 (minx + of_int x * stepx, 0, maxx + of_int x * stepx, maxy - miny)
             \<and> (0 < w \<longrightarrow> pos_yoff p \<noteq> 0 \<and> pos_maxy p \<noteq> maxy - miny)"
    by blast
qed

text \<open>
  An instance is the third piece of the run on two bars and a hook, on a sheet of width
  8: at column 3 the water level is 3, the hook is free where it is first tested, and it
  is committed with resting height 3 and top edge \<open>23/2\<close>, while its geometry stands on
  the ground and ends at \<open>17/2\<close>.
\<close>

theorem first_test_is_at_height_zero_witness:
  "sh_bounds Boxes hook = (-1, - 8, 4, 1 / 2)
   \<and> water_levels (tetris_run Boxes [bar, bar] 8 1 1 1) = Returns [3, 3, 3, 3, 3, 3, 0, 0]
   \<and> getitem [3, 3, 3, 3, 3, 3, 0, 0 :: rat] 3 = Returns 3
   \<and> sh_translate Boxes hook (of_int 3 * 1) (- (- 8)) =
        [(2, 15 / 2, 7, 17 / 2), (25 / 4, 0, 27 / 4, 17 / 2)]
   \<and> sh_bounds Boxes [(2, 15 / 2, 7, 17 / 2), (25 / 4, 0, 27 / 4, 17 / 2)] =
        (2, 0, 7, 17 / 2)
   \<and> \<not> sh_intersects Boxes
          [(0, 0, 6, 2), (0, - (1 / 1000000), 6, - (1 / 1000000)),
           (0, 3, 6, 5), (0, - (1 / 1000000), 6, 2999999 / 1000000)]
          [(2, 15 / 2, 7, 17 / 2), (25 / 4, 0, 27 / 4, 17 / 2)]
   \<and> (0::rat) < 3
   \<and> placements (tetris_run Boxes [bar, bar, hook] 8 1 1 1) =
       Returns [\<lparr>pos_x = 3, pos_yoff = 0, pos_maxy = 2, pos_geom = [(0, 0, 6, 2)]\<rparr>,
                \<lparr>pos_x = 3, pos_yoff = 3, pos_maxy = 5, pos_geom = [(0, 3, 6, 5)]\<rparr>,
                \<lparr>pos_x = 3, pos_yoff = 3, pos_maxy = 23 / 2,
                 pos_geom = [(2, 15 / 2, 7, 17 / 2), (25 / 4, 0, 27 / 4, 17 / 2)]\<rparr>]
   \<and> (\<exists>st. tetris_run Boxes [bar, bar] 8 1 1 1 = Returns st
         \<and> candidate Boxes st 1 1 hook 3 =
             Returns \<lparr>pos_x = 3, pos_yoff = 3, pos_maxy = 23 / 2,
                      pos_geom = [(2, 15 / 2, 7, 17 / 2), (25 / 4, 0, 27 / 4, 17 / 2)]\<rparr>)"
proof -
  let ?st = "\<lparr>result = [(0, 0, 6, 2), (0, 3, 6, 5)],
     simplified_result =
       [(0, 0, 6, 2), (0, - (1 / 1000000), 6, - (1 / 1000000)),
        (0, 3, 6, 5), (0, - (1 / 1000000), 6, 2999999 / 1000000)],
     simplified_result_prepared =
       [(0, 0, 6, 2), (0, - (1 / 1000000), 6, - (1 / 1000000)),
        (0, 3, 6, 5), (0, - (1 / 1000000), 6, 2999999 / 1000000)],
     starting_yoffs = [3, 3, 3, 3, 3, 3, 0, 0], nb_placed = 2,
     global_maxy = 5,
     placed =
       [\<lparr>pos_x = 3, pos_yoff = 0, pos_maxy = 2, pos_geom = [(0::rat, 0::rat, 6::rat, 2::rat)]\<rparr>,
        \<lparr>pos_x = 3, pos_yoff = 3, pos_maxy = 5, pos_geom = [(0, 3, 6, 5)]\<rparr>]\<rparr>"
  let ?gx = "[(2, 15 / 2, 7, 17 / 2), (25 / 4, 0, 27 / 4, 17 / 2)] :: box list"
  have run2: "tetris_run Boxes [bar, bar] 8 1 1 1 = Returns ?st"
    by (simp add: run_simps)
  have run3: "placements (tetris_run Boxes [bar, bar, hook] 8 1 1 1) =
       Returns [\<lparr>pos_x = 3, pos_yoff = 0, pos_maxy = 2, pos_geom = [(0, 0, 6, 2)]\<rparr>,
                \<lparr>pos_x = 3, pos_yoff = 3, pos_maxy = 5, pos_geom = [(0, 3, 6, 5)]\<rparr>,
                \<lparr>pos_x = 3, pos_yoff = 3, pos_maxy = 23 / 2, pos_geom = ?gx\<rparr>]"
    by (simp add: run_simps)
  have lev: "water_levels (tetris_run Boxes [bar, bar] 8 1 1 1) = Returns [3, 3, 3, 3, 3, 3, 0, 0]"
    by (simp only: run2 water_levels_def and_then_Returns pack_state.simps)
  have b: "sh_bounds Boxes hook = (-1, - 8, 4, 1 / 2)"
    by (simp add: run_simps)
  have w: "getitem (starting_yoffs ?st) 3 = Returns 3"
    by (simp add: getitem_def py_slot_def)
  have gx: "sh_translate Boxes hook (of_int 3 * 1) (- (- 8)) = ?gx"
    by (simp add: run_simps)
  have bgx: "sh_bounds Boxes ?gx = (2, 0, 7, 17 / 2)"
    by (simp add: run_simps)
  have shifted: "sh_bounds Boxes (sh_translate Boxes hook (of_int 3 * 1) (- (- 8))) =
          (-1 + of_int 3 * 1, - 8 + (- (- 8)), 4 + of_int 3 * 1, 1 / 2 + (- (- 8)))"
    by (simp add: run_simps)
  have free: "\<not> sh_intersects Boxes (simplified_result_prepared ?st)
                 (sh_translate Boxes hook (of_int 3 * 1) (- (- 8)))"
    by (simp add: run_simps)
  from first_test_is_at_height_zero [OF b w shifted, of 1, THEN conjunct2, rule_format, OF free]
  have "candidate Boxes ?st 1 1 hook 3 =
          Returns \<lparr>pos_x = 3, pos_yoff = 3, pos_maxy = 3 + 1 / 2 - (- 8),
                   pos_geom = sh_translate Boxes hook (of_int 3 * 1) (- (- 8))\<rparr>"
    by blast
  then have cand: "candidate Boxes ?st 1 1 hook 3 =
          Returns \<lparr>pos_x = 3, pos_yoff = 3, pos_maxy = 23 / 2, pos_geom = ?gx\<rparr>"
    unfolding gx by simp
  have "\<exists>st. tetris_run Boxes [bar, bar] 8 1 1 1 = Returns st
         \<and> candidate Boxes st 1 1 hook 3 =
             Returns \<lparr>pos_x = 3, pos_yoff = 3, pos_maxy = 23 / 2, pos_geom = ?gx\<rparr>"
    using run2 cand by blast
  moreover have "getitem [3, 3, 3, 3, 3, 3, 0, 0 :: rat] 3 = Returns 3"
    using w by simp
  moreover have "\<not> sh_intersects Boxes
          [(0, 0, 6, 2), (0, - (1 / 1000000), 6, - (1 / 1000000)),
           (0, 3, 6, 5), (0, - (1 / 1000000), 6, 2999999 / 1000000)] ?gx"
    using free unfolding gx by simp
  moreover have "(0::rat) < 3" by simp
  ultimately show ?thesis
    using b lev gx bgx run3 by blast
qed

end
